theory Spec2Isabelle
  imports Complex_Main "HOL-Library.Word"
begin

section \<open>Numbers and library functions of the host language\<close>

text \<open>
  The program is TypeScript. Its numbers are modelled as real numbers (rounding of
  IEEE doubles is not modelled); the non-finite values that the code can produce,
  \<open>-Infinity\<close> and \<open>NaN\<close>, are constructors of their own where they can arise.
  Strings are \<open>char list\<close>; the inputs used below are ASCII.
\<close>

datatype jsnum = Num real | NegInfinity | NaN

text \<open>\<open>Math.max(...xs)\<close> on finite numbers: \<open>-Infinity\<close> for no argument.\<close>

fun Math_max :: "real list \<Rightarrow> jsnum" where
  "Math_max [] = NegInfinity"
| "Math_max (x # xs) =
     (case Math_max xs of
        NegInfinity \<Rightarrow> Num x
      | Num m \<Rightarrow> Num (max x m)
      | NaN \<Rightarrow> NaN)"

text \<open>\<open>x || d\<close> on numbers: \<open>0\<close> and \<open>NaN\<close> are falsy, every other number is truthy.\<close>

definition js_or :: "jsnum \<Rightarrow> jsnum \<Rightarrow> jsnum" where
  "js_or x d = (case x of Num r \<Rightarrow> (if r = 0 then d else x) | NaN \<Rightarrow> d | NegInfinity \<Rightarrow> x)"

text \<open>\<open>x * c\<close> for a positive finite constant \<open>c\<close>.\<close>

definition js_times :: "jsnum \<Rightarrow> real \<Rightarrow> jsnum" where
  "js_times x c = (case x of Num r \<Rightarrow> Num (r * c) | NegInfinity \<Rightarrow> NegInfinity | NaN \<Rightarrow> NaN)"

text \<open>\<open>Array.prototype.indexOf\<close>: the first index of an element, \<open>-1\<close> when absent.\<close>

fun indexOf :: "'a list \<Rightarrow> 'a \<Rightarrow> int" where
  "indexOf [] x = - 1"
| "indexOf (y # ys) x =
     (if y = x then 0 else (let r = indexOf ys x in if r = - 1 then - 1 else r + 1))"

text \<open>
  \<open>parseInt(s)\<close> in radix 10: leading white space, an optional sign, then the longest
  prefix of decimal digits; \<open>NaN\<close> (here \<open>None\<close>) when there is no digit. (The
  hexadecimal prefix needs three characters and cannot occur in the one-character
  strings the program passes.)
\<close>

definition is_space :: "char \<Rightarrow> bool" where
  "is_space c = (c \<in> set [CHR '' '', CHR 0x09, CHR 0x0A, CHR 0x0B, CHR 0x0C, CHR 0x0D])"

definition is_digit :: "char \<Rightarrow> bool" where
  "is_digit c = (indexOf ''0123456789'' c \<noteq> - 1)"

definition digit_val :: "char \<Rightarrow> int" where
  "digit_val c = indexOf ''0123456789'' c"

definition parseInt :: "string \<Rightarrow> int option" where
  "parseInt s =
     (let t = dropWhile is_space s;
          sgn = (case t of c # r \<Rightarrow> (if c = CHR ''-'' then - 1 else 1) | [] \<Rightarrow> (1::int));
          u = (case t of c # r \<Rightarrow> (if c = CHR ''-'' \<or> c = CHR ''+'' then r else t) | [] \<Rightarrow> []);
          ds = takeWhile is_digit u
      in if ds = [] then None
         else Some (sgn * foldl (\<lambda>a c. a * 10 + digit_val c) 0 ds))"

text \<open>\<open>s.slice(-1)\<close> and \<open>s.slice(0, -1)\<close>.\<close>

definition slice_last :: "string \<Rightarrow> string" where
  "slice_last s = (if s = [] then [] else [last s])"

definition slice_init :: "string \<Rightarrow> string" where
  "slice_init s = butlast s"

section \<open>Pitch names to frequencies (audio engine, \<open>getFrequency\<close>)\<close>

definition noteNames :: "string list" where
  "noteNames = [''C'', ''C#'', ''D'', ''D#'', ''E'', ''F'', ''F#'', ''G'', ''G#'', ''A'', ''A#'', ''B'']"

definition getFrequency :: "string \<Rightarrow> jsnum" where
  "getFrequency note =
     (let octave = parseInt (slice_last note);
          key = slice_init note;
          semitone = indexOf noteNames key
      in if semitone = - 1 then Num 200
         else (case octave of
                 None \<Rightarrow> NaN
               | Some oct \<Rightarrow>
                   (let midiBase = (oct + 1) * 12 + semitone
                    in Num (440 * 2 powr ((real_of_int midiBase - 69) / 12)))))"

section \<open>Data model (\<open>types.ts\<close>)\<close>

datatype NoiseType = OFF | WHITE | GREY | BROWN

record NoteEvent =
  noteName :: string
  duration :: real
  startTime :: real
  velocity :: real

record Composition =
  name :: string
  bpm :: real
  key :: "string option"
  noteList :: "NoteEvent list"
  description :: string
  tags :: "string list option"

record AgenticConfig =
  stationName :: string
  carrierFreq :: real
  beatFreq :: real
  cfgNoiseType :: NoiseType
  noiseVolume :: real
  musicPrompt :: string
  reasoning :: string

section \<open>The composer service (\<open>geminiService.ts\<close>)\<close>

definition getApproximateKey :: "real \<Rightarrow> string" where
  "getApproximateKey hz =
     (if hz < 155 then ''D3''
      else if hz < 165 then ''Eb3''
      else if hz < 175 then ''E3''
      else if hz < 185 then ''F3''
      else if hz < 196 then ''F#3''
      else if hz < 208 then ''G3''
      else if hz < 220 then ''Ab3''
      else ''A3'')"

definition getTargetBPM :: "real \<Rightarrow> string" where
  "getTargetBPM bf =
     (if bf \<le> 4 then ''30-50 BPM (Largo)''
      else if bf \<le> 8 then ''50-70 BPM (Adagio)''
      else ''70-90 BPM (Andante)'')"

text \<open>
  The prompt is a template; the record holds the values interpolated into it.
  \<open>variation\<close> is the previous track's name when the optional argument is a
  non-empty string, and absent otherwise.
\<close>

record Prompt =
  pCarrier :: real
  pMusicalKey :: string
  pTargetBPM :: string
  pAtmosphere :: string
  pVariation :: "string option"

definition buildPrompt :: "string \<Rightarrow> string option \<Rightarrow> real \<Rightarrow> real \<Rightarrow> Prompt" where
  "buildPrompt mood previousContext carrier beatf =
     (let musicalKey = getApproximateKey carrier;
          targetBPM = getTargetBPM beatf
      in \<lparr> pCarrier = carrier, pMusicalKey = musicalKey, pTargetBPM = targetBPM,
           pAtmosphere = mood,
           pVariation = (case previousContext of
                           None \<Rightarrow> None
                         | Some c \<Rightarrow> (if c = [] then None else Some c)) \<rparr>)"

text \<open>A value as \<open>JSON.parse\<close> returns it; \<open>JNull\<close> is \<open>null\<close>, "no composition".\<close>

datatype json =
    JNull
  | JBool bool
  | JNumber real
  | JString string
  | JArray "json list"
  | JObject "(string \<times> json) list"

text \<open>
  The remote call either fails (the promise rejects, or the client throws) or gives a
  response whose \<open>text\<close> may be undefined.
\<close>

datatype ApiOutcome = Rejected | Resolved "string option"

text \<open>
  \<open>generateLullaby\<close>. The two platform functions it calls are parameters:
  \<open>generateContent\<close>, the remote model, and \<open>JSON_parse\<close>, which is \<open>None\<close> where
  \<open>JSON.parse\<close> throws a \<open>SyntaxError\<close>. The result is the value the promise
  resolves to; the body is one \<open>try\<close> block whose handler returns \<open>null\<close>, so the
  promise never rejects.
\<close>

definition generateLullaby ::
  "(Prompt \<Rightarrow> ApiOutcome) \<Rightarrow> (string \<Rightarrow> json option) \<Rightarrow>
   string \<Rightarrow> string option \<Rightarrow> real \<Rightarrow> real \<Rightarrow> json" where
  "generateLullaby generateContent JSON_parse mood previousContext carrier beatf =
     (let prompt = buildPrompt mood previousContext carrier beatf
      in case generateContent prompt of
           Rejected \<Rightarrow> JNull
         | Resolved text \<Rightarrow>
             (case text of
                None \<Rightarrow> JNull
              | Some t \<Rightarrow>
                  (if t = [] then JNull
                   else (case JSON_parse t of
                           None \<Rightarrow> JNull
                         | Some v \<Rightarrow> v))))"

text \<open>The fields the response schema of a composition lists as required.\<close>

definition requiredFields :: "string list" where
  "requiredFields = [''name'', ''notes'', ''bpm'', ''description'']"

definition structurallyValid :: "json \<Rightarrow> bool" where
  "structurallyValid v =
     (case v of
        JObject kvs \<Rightarrow> list_all (\<lambda>f. f \<in> set (map fst kvs)) requiredFields
      | _ \<Rightarrow> False)"

section \<open>The application (\<open>App.tsx\<close>)\<close>

record Station =
  stId :: string
  stName :: string
  carrier :: real
  beat :: real
  desc :: string
  mood :: string

record SavedPreset =
  presetId :: string
  presetName :: string
  config :: AgenticConfig
  presetComposition :: Composition
  date :: nat

text \<open>
  The component's state. A handler runs against the values of one render (its
  closure); what it does is a list of actions, in program order: calls of state
  setters, which take effect in the next render, and calls to the outside.
  \<open>musicLoopRef\<close> holds the delay (in ms) the pending timer was armed with.
\<close>

record App =
  isPlaying :: bool
  currentStation :: Station
  volNoise :: real
  noiseType :: NoiseType
  composition :: "Composition option"
  nextComposition :: "Composition option"
  isGenerating :: bool
  library :: "SavedPreset list"
  showLibrary :: bool
  musicLoopRef :: "jsnum option"

record LullabyRequest =
  reqMood :: string
  reqPreviousContext :: "string option"
  reqCarrier :: real
  reqBeat :: real

datatype Action =
    SetComposition "Composition option"
  | SetNextComposition "Composition option"
  | SetIsGenerating bool
  | SetCurrentStation Station
  | SetNoiseType NoiseType
  | SetLibrary "SavedPreset list"
  | SetShowLibrary bool
  | CallGenerateLullaby LullabyRequest
  | CallPlayComposition "NoteEvent list"
  | ClearTimeout
  | SetTimeout jsnum
  | LocalStorageSetItem string "SavedPreset list"
  | Alert string



subsection \<open>The music loop\<close>

text \<open>
  \<open>generateNextSegment\<close> up to its \<open>await\<close>: it raises the flag and calls the composer
  with the name of \<open>composition\<close> as the render that created the handler saw it.
\<close>

definition generateNextSegment :: "App \<Rightarrow> Action list" where
  "generateNextSegment s =
     (let prevContext = (case composition s of Some c \<Rightarrow> name c | None \<Rightarrow> [])
      in [SetIsGenerating True,
          CallGenerateLullaby
            \<lparr> reqMood = mood (currentStation s), reqPreviousContext = Some prevContext,
              reqCarrier = carrier (currentStation s), reqBeat = beat (currentStation s) \<rparr>])"

text \<open>\<open>generateNextSegment\<close> after the \<open>await\<close>, with the composer's answer.\<close>

definition generateNextSegment_resumed :: "App \<Rightarrow> Composition option \<Rightarrow> Action list" where
  "generateNextSegment_resumed s newComp =
     (case newComp of
        Some c \<Rightarrow> (if composition s = None then [SetComposition (Some c)]
                   else [SetNextComposition (Some c)])
      | None \<Rightarrow> [])
     @ [SetIsGenerating False]"

definition maxDuration :: "Composition \<Rightarrow> jsnum" where
  "maxDuration track = js_or (Math_max (map (\<lambda>n. startTime n + duration n) (noteList track))) (Num 15)"

definition loopTimeMs :: "Composition \<Rightarrow> jsnum" where
  "loopTimeMs track = js_times (maxDuration track) 1000"

text \<open>
  \<open>audioEngine.playComposition\<close> throws when it reaches a note whose frequency is not a
  finite number (the assignment to \<open>frequency.value\<close> is refused); the exception
  leaves \<open>playMusicLoop\<close> at once, before the timer is armed.
\<close>

fun playCompositionThrows :: "NoteEvent list \<Rightarrow> bool" where
  "playCompositionThrows [] = False"
| "playCompositionThrows (n # ns) =
     (case getFrequency (noteName n) of
        Num f \<Rightarrow> playCompositionThrows ns
      | NegInfinity \<Rightarrow> True
      | NaN \<Rightarrow> True)"

definition playMusicLoop :: "App \<Rightarrow> Action list" where
  "playMusicLoop s =
     (if \<not> isPlaying s then []
      else
        (case (case nextComposition s of Some n \<Rightarrow> Some n | None \<Rightarrow> composition s) of
           Some track \<Rightarrow>
             (if nextComposition s \<noteq> None
              then [SetComposition (nextComposition s), SetNextComposition None]
                   @ generateNextSegment s
              else if \<not> isGenerating s then generateNextSegment s
              else [])
             @ [CallPlayComposition (noteList track)]
             @ (if playCompositionThrows (noteList track) then []
                else (if musicLoopRef s \<noteq> None then [ClearTimeout] else [])
                     @ [SetTimeout (loopTimeMs track)])
         | None \<Rightarrow>
             (if \<not> isGenerating s \<and> composition s = None then generateNextSegment s else [])
             @ [SetTimeout (Num 1000)]))"

subsection \<open>Presets\<close>







section \<open>The audio engine\<close>

subsection \<open>The signal graph of the platform\<close>

text \<open>
  The Web Audio graph is an explicit store: nodes live in a map from node identifiers
  to node states, and the connections are a set of edges
  \<open>(source, destination, output index, input index)\<close>. Sample data (noise buffer,
  impulse response) is not modelled, only that a buffer is attached.
\<close>

datatype NodeKind =
    AudioDestinationNode
  | GainNode
  | ConvolverNode
  | DelayNode
  | OscillatorNode
  | ChannelMergerNode
  | AudioBufferSourceNode
  | BiquadFilterNode
  | MediaStreamAudioSourceNode
  | AnalyserNode

datatype ParamEvent =
    SetTargetAtTime real real real
  | SetValueAtTime real real
  | LinearRampToValueAtTime real real

text \<open>
  \<open>paramValue\<close> is the node's main parameter (\<open>gain\<close>, \<open>frequency\<close> or
  \<open>delayTime\<close>) and \<open>paramEvents\<close> the automation scheduled on it.
\<close>

record AudioNode =
  kind :: NodeKind
  nodeType :: string
  paramValue :: real
  paramEvents :: "ParamEvent list"
  qValue :: real
  detune :: real
  hasBuffer :: bool
  loop :: bool
  fftSize :: nat
  startedAt :: "real option"
  stoppedAt :: "real option"

type_synonym Connection = "nat \<times> nat \<times> nat \<times> nat"

definition newNode :: "NodeKind \<Rightarrow> AudioNode" where
  "newNode k =
     \<lparr> kind = k,
       nodeType = (if k = OscillatorNode then ''sine''
                   else if k = BiquadFilterNode then ''lowpass'' else []),
       paramValue = (if k = GainNode then 1
                     else if k = OscillatorNode then 440
                     else if k = BiquadFilterNode then 350 else 0),
       paramEvents = [],
       qValue = 1,
       detune = 0,
       hasBuffer = False,
       loop = False,
       fftSize = (if k = AnalyserNode then 2048 else 0),
       startedAt = None,
       stoppedAt = None \<rparr>"

record AudioGraph =
  nodes :: "nat \<rightharpoonup> AudioNode"
  nextNode :: nat
  connections :: "Connection set"

definition allocNode :: "NodeKind \<Rightarrow> AudioGraph \<Rightarrow> AudioGraph" where
  "allocNode k g = g\<lparr>nodes := (nodes g)(nextNode g \<mapsto> newNode k), nextNode := Suc (nextNode g)\<rparr>"

definition modifyNode :: "nat \<Rightarrow> (AudioNode \<Rightarrow> AudioNode) \<Rightarrow> AudioGraph \<Rightarrow> AudioGraph" where
  "modifyNode i f g = g\<lparr>nodes := (nodes g)(i := map_option f (nodes g i))\<rparr>"

definition addConnection :: "Connection \<Rightarrow> AudioGraph \<Rightarrow> AudioGraph" where
  "addConnection c g = g\<lparr>connections := insert c (connections g)\<rparr>"

definition removeOutgoing :: "nat \<Rightarrow> AudioGraph \<Rightarrow> AudioGraph" where
  "removeOutgoing s g = g\<lparr>connections := {c \<in> connections g. fst c \<noteq> s}\<rparr>"

text \<open>
  The engine object. \<open>graph\<close> is the signal graph of the platform (empty until the
  context is created); \<open>ctx\<close> is the audio context, given by the identifier of its
  destination node; \<open>currentTime\<close> is the context's clock; \<open>adaptiveInterval\<close>
  tells whether the polling timer is armed; \<open>micStream\<close> is the handle of the
  microphone stream and \<open>releasedStreams\<close> the streams whose tracks were stopped.
\<close>

record AudioEngine =
  graph :: AudioGraph
  ctx :: "nat option"
  currentTime :: real
  masterGain :: "nat option"
  reverbNode :: "nat option"
  reverbGain :: "nat option"
  delayNode :: "nat option"
  delayGain :: "nat option"
  leftOsc :: "nat option"
  rightOsc :: "nat option"
  binauralGain :: "nat option"
  merger :: "nat option"
  musicGain :: "nat option"
  noiseSource :: "nat option"
  noiseFilter :: "nat option"
  noiseGain :: "nat option"
  baseNoiseVolume :: real
  micStream :: "nat option"
  micSource :: "nat option"
  micAnalyser :: "nat option"
  adaptiveInterval :: bool
  isAdaptive :: bool
  releasedStreams :: "nat list"

definition newEngine :: AudioEngine where
  "newEngine =
     \<lparr> graph = \<lparr> nodes = Map.empty, nextNode = 0, connections = {} \<rparr>,
       ctx = None, currentTime = 0,
       masterGain = None, reverbNode = None, reverbGain = None, delayNode = None,
       delayGain = None, leftOsc = None, rightOsc = None, binauralGain = None,
       merger = None, musicGain = None, noiseSource = None, noiseFilter = None,
       noiseGain = None, baseNoiseVolume = 1 / 10, micStream = None, micSource = None,
       micAnalyser = None, adaptiveInterval = False, isAdaptive = False,
       releasedStreams = [] \<rparr>"

definition createNode :: "NodeKind \<Rightarrow> AudioEngine \<Rightarrow> nat \<times> AudioEngine" where
  "createNode k e = (nextNode (graph e), e\<lparr>graph := allocNode k (graph e)\<rparr>)"

definition updNode :: "nat \<Rightarrow> (AudioNode \<Rightarrow> AudioNode) \<Rightarrow> AudioEngine \<Rightarrow> AudioEngine" where
  "updNode i f e = e\<lparr>graph := modifyNode i f (graph e)\<rparr>"

definition connect :: "nat \<Rightarrow> nat \<Rightarrow> nat \<Rightarrow> nat \<Rightarrow> AudioEngine \<Rightarrow> AudioEngine" where
  "connect s d outp inp e = e\<lparr>graph := addConnection (s, d, outp, inp) (graph e)\<rparr>"

definition disconnect :: "nat \<Rightarrow> AudioEngine \<Rightarrow> AudioEngine" where
  "disconnect s e = e\<lparr>graph := removeOutgoing s (graph e)\<rparr>"

definition setValue :: "nat \<Rightarrow> real \<Rightarrow> AudioEngine \<Rightarrow> AudioEngine" where
  "setValue i v e = updNode i (\<lambda>n. n\<lparr>paramValue := v\<rparr>) e"

definition schedule :: "nat \<Rightarrow> ParamEvent list \<Rightarrow> AudioEngine \<Rightarrow> AudioEngine" where
  "schedule i evs e = updNode i (\<lambda>n. n\<lparr>paramEvents := paramEvents n @ evs\<rparr>) e"

definition start :: "nat \<Rightarrow> real \<Rightarrow> AudioEngine \<Rightarrow> AudioEngine" where
  "start i t e = updNode i (\<lambda>n. n\<lparr>startedAt := Some t\<rparr>) e"

definition stop :: "nat \<Rightarrow> real \<Rightarrow> AudioEngine \<Rightarrow> AudioEngine" where
  "stop i t e = updNode i (\<lambda>n. n\<lparr>stoppedAt := Some t\<rparr>) e"

text \<open>
  \<open>try { src.stop(); src.disconnect(); } catch {}\<close>: \<open>stop()\<close> throws on a source
  that was never started, and then \<open>disconnect()\<close> is skipped.
\<close>

definition tryStopDisconnect :: "nat \<Rightarrow> AudioEngine \<Rightarrow> AudioEngine" where
  "tryStopDisconnect i e =
     (case nodes (graph e) i of
        None \<Rightarrow> e
      | Some n \<Rightarrow> (if startedAt n = None then e
                   else disconnect i (stop i (currentTime e) e)))"

subsection \<open>Context and effects bus\<close>

definition initContext :: "AudioEngine \<Rightarrow> AudioEngine" where
  "initContext e0 =
     (if ctx e0 \<noteq> None then e0
      else
        (let (dest, e) = createNode AudioDestinationNode e0;
             e = e\<lparr>ctx := Some dest\<rparr>;
             (mg, e) = createNode GainNode e;
             e = e\<lparr>masterGain := Some mg\<rparr>;
             e = connect mg dest 0 0 e;
             (rv, e) = createNode ConvolverNode e;
             e = e\<lparr>reverbNode := Some rv\<rparr>;
             e = updNode rv (\<lambda>n. n\<lparr>hasBuffer := True\<rparr>) e;
             (rg, e) = createNode GainNode e;
             e = e\<lparr>reverbGain := Some rg\<rparr>;
             e = setValue rg (3 / 10) e;
             (dl, e) = createNode DelayNode e;
             e = e\<lparr>delayNode := Some dl\<rparr>;
             e = setValue dl (1 / 2) e;
             (fb, e) = createNode GainNode e;
             e = setValue fb (4 / 10) e;
             e = connect dl fb 0 0 e;
             e = connect fb dl 0 0 e;
             (dg, e) = createNode GainNode e;
             e = e\<lparr>delayGain := Some dg\<rparr>;
             e = setValue dg (2 / 10) e;
             e = connect rv rg 0 0 e;
             e = connect rg mg 0 0 e;
             e = connect dl dg 0 0 e;
             e = connect dg mg 0 0 e
         in e))"

definition resume :: "AudioEngine \<Rightarrow> AudioEngine" where
  "resume e = initContext e"

subsection \<open>Adaptive microphone logic\<close>

definition stopAdaptiveLoop :: "AudioEngine \<Rightarrow> AudioEngine" where
  "stopAdaptiveLoop e = (if adaptiveInterval e then e\<lparr>adaptiveInterval := False\<rparr> else e)"

definition startAdaptiveLoop :: "AudioEngine \<Rightarrow> AudioEngine" where
  "startAdaptiveLoop e = e\<lparr>adaptiveInterval := True\<rparr>"

definition updateNoiseGain :: "real \<Rightarrow> AudioEngine \<Rightarrow> AudioEngine" where
  "updateNoiseGain vol e =
     (case noiseGain e of
        Some g \<Rightarrow> (if ctx e \<noteq> None
                   then schedule g [SetTargetAtTime vol (currentTime e) (2 / 10)] e else e)
      | None \<Rightarrow> e)"

text \<open>
  \<open>enableAdaptiveNoise\<close> waits for the microphone when it has no stream yet. The part
  that runs once a stream is held:
\<close>

definition enableAdaptiveNoise_wire :: "AudioEngine \<Rightarrow> AudioEngine" where
  "enableAdaptiveNoise_wire e0 =
     (let e = initContext e0;
          e = (if ctx e \<noteq> None \<and> micSource e = None
               then (let (ms, e) = createNode MediaStreamAudioSourceNode e;
                         e = e\<lparr>micSource := Some ms\<rparr>;
                         (an, e) = createNode AnalyserNode e;
                         e = e\<lparr>micAnalyser := Some an\<rparr>;
                         e = updNode an (\<lambda>n. n\<lparr>fftSize := 256\<rparr>) e;
                         e = connect ms an 0 0 e
                     in e)
               else e)
      in startAdaptiveLoop e)"

text \<open>The call itself, up to the point where it waits (if it has to).\<close>

definition enableAdaptiveNoise :: "bool \<Rightarrow> AudioEngine \<Rightarrow> AudioEngine" where
  "enableAdaptiveNoise enable e0 =
     (let e = e0\<lparr>isAdaptive := enable\<rparr>
      in if enable
         then (if micStream e = None then e else enableAdaptiveNoise_wire e)
         else updateNoiseGain (baseNoiseVolume e) (stopAdaptiveLoop e))"

text \<open>The microphone request is granted with a stream, or fails.\<close>

definition enableAdaptiveNoise_granted :: "nat \<Rightarrow> AudioEngine \<Rightarrow> AudioEngine" where
  "enableAdaptiveNoise_granted stream e = enableAdaptiveNoise_wire (e\<lparr>micStream := Some stream\<rparr>)"

definition enableAdaptiveNoise_failed :: "AudioEngine \<Rightarrow> AudioEngine" where
  "enableAdaptiveNoise_failed e = e\<lparr>isAdaptive := False\<rparr>"

text \<open>
  The body of the polling timer. \<open>dataArray\<close> is what \<open>getByteFrequencyData\<close> wrote:
  one byte per frequency bin (\<open>fftSize / 2 = 128\<close> of them).
\<close>

definition average :: "8 word list \<Rightarrow> real" where
  "average dataArray = real (sum_list (map unat dataArray)) / real (length dataArray)"

definition boost :: "real \<Rightarrow> real" where
  "boost avg = (if avg > 20 then min ((avg - 20) / 200) (3 / 10) else 0)"

definition targetVol :: "real \<Rightarrow> real \<Rightarrow> real" where
  "targetVol base avg = min (base + boost avg) (8 / 10)"

definition adaptiveTick :: "8 word list \<Rightarrow> AudioEngine \<Rightarrow> AudioEngine" where
  "adaptiveTick dataArray e =
     (if micAnalyser e = None \<or> \<not> isAdaptive e then e
      else (case noiseGain e of
              None \<Rightarrow> e
            | Some g \<Rightarrow>
                (if ctx e \<noteq> None
                 then schedule g [SetTargetAtTime (targetVol (baseNoiseVolume e) (average dataArray))
                                    (currentTime e) (1 / 2)] e
                 else e)))"

subsection \<open>Noise\<close>

definition setNoiseVolume :: "real \<Rightarrow> AudioEngine \<Rightarrow> AudioEngine" where
  "setNoiseVolume val e0 =
     (let e = e0\<lparr>baseNoiseVolume := val\<rparr>
      in if \<not> isAdaptive e then updateNoiseGain val e else e)"

definition stopNoise :: "AudioEngine \<Rightarrow> AudioEngine" where
  "stopNoise e =
     (case noiseSource e of
        Some src \<Rightarrow> tryStopDisconnect src e
      | None \<Rightarrow> e)\<lparr>noiseSource := None\<rparr>"

definition startNoise :: "NoiseType \<Rightarrow> real \<Rightarrow> AudioEngine \<Rightarrow> AudioEngine" where
  "startNoise type volume e0 =
     (let e = initContext e0
      in if ctx e = None then e
         else
           (let e = e\<lparr>baseNoiseVolume := volume\<rparr>;
                e = stopNoise e
            in if type = OFF then e
               else
                 (let (src, e) = createNode AudioBufferSourceNode e;
                      e = e\<lparr>noiseSource := Some src\<rparr>;
                      e = updNode src (\<lambda>n. n\<lparr>hasBuffer := True, loop := True\<rparr>) e;
                      (flt, e) = createNode BiquadFilterNode e;
                      e = e\<lparr>noiseFilter := Some flt\<rparr>;
                      e = updNode flt
                            (\<lambda>n. if type = GREY
                                 then n\<lparr>nodeType := ''lowpass'', paramValue := 500, qValue := 1 / 2\<rparr>
                                 else if type = BROWN
                                 then n\<lparr>nodeType := ''lowpass'', paramValue := 150, qValue := 1\<rparr>
                                 else n\<lparr>nodeType := ''allpass''\<rparr>) e;
                      (g, e) = createNode GainNode e;
                      e = e\<lparr>noiseGain := Some g\<rparr>;
                      e = setValue g volume e;
                      e = connect src flt 0 0 e;
                      e = connect flt g 0 0 e
                  in case masterGain e of
                       None \<Rightarrow> e
                     | Some mg \<Rightarrow> start src (currentTime e) (connect g mg 0 0 e))))"

subsection \<open>Music\<close>

definition setMusicVolume :: "real \<Rightarrow> AudioEngine \<Rightarrow> AudioEngine" where
  "setMusicVolume val e =
     (case musicGain e of
        Some g \<Rightarrow> (if ctx e \<noteq> None
                   then schedule g [SetTargetAtTime val (currentTime e) (1 / 10)] e else e)
      | None \<Rightarrow> e)"

text \<open>
  The body of the loop over the notes: two voices for one note. The flag tells
  whether the body ran to its end; it does not when the frequency is not a finite
  number (the assignment to \<open>frequency.value\<close> throws) or when there is no music bus.
\<close>

definition playVoice :: "real \<Rightarrow> NoteEvent \<Rightarrow> AudioEngine \<Rightarrow> AudioEngine \<times> bool" where
  "playVoice now n e0 =
     (let freq = getFrequency (noteName n);
          (osc1, e) = createNode OscillatorNode e0;
          (osc1Gain, e) = createNode GainNode e
      in case freq of
           NaN \<Rightarrow> (e, False)
         | NegInfinity \<Rightarrow> (e, False)
         | Num f \<Rightarrow>
             (let e = updNode osc1 (\<lambda>x. x\<lparr>paramValue := f, nodeType := ''sine''\<rparr>) e;
                  (osc2, e) = createNode OscillatorNode e;
                  (osc2Gain, e) = createNode GainNode e;
                  e = updNode osc2 (\<lambda>x. x\<lparr>paramValue := f, detune := 8,
                                            nodeType := ''triangle''\<rparr>) e;
                  e = connect osc1 osc1Gain 0 0 e;
                  e = connect osc2 osc2Gain 0 0 e;
                  (mrg, e) = createNode ChannelMergerNode e;
                  e = connect osc1Gain mrg 0 0 e;
                  e = connect osc2Gain mrg 0 1 e
              in case musicGain e of
                   None \<Rightarrow> (e, False)
                 | Some mg \<Rightarrow>
                     (let e = connect mrg mg 0 0 e;
                          startT = now + startTime n;
                          dur = duration n;
                          attack = dur * (3 / 10);
                          release = dur * (3 / 10);
                          e = schedule osc1Gain
                                [SetValueAtTime 0 startT,
                                 LinearRampToValueAtTime (2 / 10) (startT + attack),
                                 SetValueAtTime (2 / 10) (startT + dur - release),
                                 LinearRampToValueAtTime 0 (startT + dur)] e;
                          e = schedule osc2Gain
                                [SetValueAtTime 0 startT,
                                 LinearRampToValueAtTime (1 / 10) (startT + attack),
                                 SetValueAtTime (1 / 10) (startT + dur - release),
                                 LinearRampToValueAtTime 0 (startT + dur)] e;
                          e = start osc1 startT e;
                          e = stop osc1 (startT + dur) e;
                          e = start osc2 startT e;
                          e = stop osc2 (startT + dur) e
                      in (e, True))))"

fun playNotes :: "real \<Rightarrow> NoteEvent list \<Rightarrow> AudioEngine \<Rightarrow> AudioEngine" where
  "playNotes now [] e = e"
| "playNotes now (n # ns) e =
     (case playVoice now n e of
        (e', ok) \<Rightarrow> (if ok then playNotes now ns e' else e'))"

text \<open>The block of \<open>playComposition\<close> that creates the music bus on first use.\<close>

definition createMusicGain :: "AudioEngine \<Rightarrow> AudioEngine" where
  "createMusicGain e0 =
     (if musicGain e0 = None
      then (let (g, e) = createNode GainNode e0;
                e = e\<lparr>musicGain := Some g\<rparr>;
                e = setValue g (3 / 10) e;
                e = (case masterGain e of
                       Some mg \<Rightarrow> connect g mg 0 0 e | None \<Rightarrow> e);
                e = (case reverbNode e of
                       Some rv \<Rightarrow> (if reverbGain e \<noteq> None then connect g rv 0 0 e else e)
                     | None \<Rightarrow> e);
                e = (case delayNode e of
                       Some dl \<Rightarrow> (if delayGain e \<noteq> None then connect g dl 0 0 e else e)
                     | None \<Rightarrow> e)
            in e)
      else e0)"

definition playComposition :: "NoteEvent list \<Rightarrow> AudioEngine \<Rightarrow> AudioEngine" where
  "playComposition ns e0 =
     (let e = initContext e0
      in if ctx e = None then e
         else (let e = createMusicGain e
               in playNotes (currentTime e) ns e))"

subsection \<open>Binaural pair and effect controls\<close>

definition setReverbMix :: "real \<Rightarrow> AudioEngine \<Rightarrow> AudioEngine" where
  "setReverbMix val e =
     (case reverbGain e of
        Some g \<Rightarrow> (if ctx e \<noteq> None
                   then schedule g [SetTargetAtTime val (currentTime e) (1 / 10)] e else e)
      | None \<Rightarrow> e)"

definition setDelayMix :: "real \<Rightarrow> AudioEngine \<Rightarrow> AudioEngine" where
  "setDelayMix val e =
     (case delayGain e of
        Some g \<Rightarrow> (if ctx e \<noteq> None
                   then schedule g [SetTargetAtTime val (currentTime e) (1 / 10)] e else e)
      | None \<Rightarrow> e)"

definition setBinauralVolume :: "real \<Rightarrow> AudioEngine \<Rightarrow> AudioEngine" where
  "setBinauralVolume val e =
     (case binauralGain e of
        Some g \<Rightarrow> (if ctx e \<noteq> None
                   then schedule g [SetTargetAtTime val (currentTime e) (1 / 10)] e else e)
      | None \<Rightarrow> e)"

definition stopBinaural :: "AudioEngine \<Rightarrow> AudioEngine" where
  "stopBinaural e0 =
     (let e = (case leftOsc e0 of Some l \<Rightarrow> tryStopDisconnect l e0 | None \<Rightarrow> e0);
          e = (case rightOsc e of Some r \<Rightarrow> tryStopDisconnect r e | None \<Rightarrow> e)
      in e\<lparr>leftOsc := None, rightOsc := None\<rparr>)"

definition startBinaural :: "real \<Rightarrow> real \<Rightarrow> real \<Rightarrow> AudioEngine \<Rightarrow> AudioEngine" where
  "startBinaural carrierHz beatHz volume e0 =
     (let e = initContext e0
      in if ctx e = None then e
         else
           (let e = stopBinaural e;
                (mrg, e) = createNode ChannelMergerNode e;
                e = e\<lparr>merger := Some mrg\<rparr>;
                (bg, e) = createNode GainNode e;
                e = e\<lparr>binauralGain := Some bg\<rparr>;
                e = setValue bg volume e;
                e = connect mrg bg 0 0 e
            in case masterGain e of
                 None \<Rightarrow> e
               | Some mg \<Rightarrow>
                   (let e = connect bg mg 0 0 e;
                        (l, e) = createNode OscillatorNode e;
                        e = e\<lparr>leftOsc := Some l\<rparr>;
                        e = updNode l (\<lambda>n. n\<lparr>nodeType := ''sine'', paramValue := carrierHz\<rparr>) e;
                        (leftChGain, e) = createNode GainNode e;
                        e = setValue leftChGain (1 / 2) e;
                        e = connect l leftChGain 0 0 e;
                        e = connect leftChGain mrg 0 0 e;
                        (r, e) = createNode OscillatorNode e;
                        e = e\<lparr>rightOsc := Some r\<rparr>;
                        e = updNode r (\<lambda>n. n\<lparr>nodeType := ''sine'',
                                               paramValue := carrierHz + beatHz\<rparr>) e;
                        (rightChGain, e) = createNode GainNode e;
                        e = setValue rightChGain (1 / 2) e;
                        e = connect r rightChGain 0 0 e;
                        e = connect rightChGain mrg 0 1 e;
                        e = start l (currentTime e) e;
                        e = start r (currentTime e) e
                    in e)))"

definition stopAll :: "AudioEngine \<Rightarrow> AudioEngine" where
  "stopAll e0 =
     (let e = stopBinaural e0;
          e = stopNoise e;
          e = stopAdaptiveLoop e;
          e = (case micStream e of
                 Some st \<Rightarrow> e\<lparr>releasedStreams := st # releasedStreams e, micStream := None,
                              micSource := None\<rparr>
               | None \<Rightarrow> e)
      in case masterGain e of
           Some mg \<Rightarrow> (if ctx e \<noteq> None
                       then schedule mg [SetTargetAtTime 0 (currentTime e) (1 / 2)] e else e)
         | None \<Rightarrow> e)"

text \<open>The callback \<open>stopAll\<close> arms: half a second later the master gain is set back to 1.\<close>

definition stopAll_restore :: "AudioEngine \<Rightarrow> AudioEngine" where
  "stopAll_restore e = (case masterGain e of Some mg \<Rightarrow> setValue mg 1 e | None \<Rightarrow> e)"

subsection \<open>Runs of the engine\<close>

text \<open>
  What can happen to the engine: a call of one of its public methods, the outcome of
  a pending microphone request, a firing of one of its timers, or time passing.
\<close>

datatype EngineEvent =
    Resume
  | EnableAdaptiveNoise bool
  | MicGranted nat
  | MicFailed
  | AdaptiveTick "8 word list"
  | SetNoiseVolume real
  | StartNoise NoiseType real
  | StopNoise
  | SetMusicVolume real
  | PlayComposition "NoteEvent list"
  | SetReverbMix real
  | SetDelayMix real
  | SetBinauralVolume real
  | StartBinaural real real real
  | StopBinaural
  | StopAll
  | MasterRestore
  | ClockAdvance real

fun exec :: "EngineEvent \<Rightarrow> AudioEngine \<Rightarrow> AudioEngine" where
  "exec Resume e = resume e"
| "exec (EnableAdaptiveNoise b) e = enableAdaptiveNoise b e"
| "exec (MicGranted st) e = enableAdaptiveNoise_granted st e"
| "exec MicFailed e = enableAdaptiveNoise_failed e"
| "exec (AdaptiveTick d) e = (if adaptiveInterval e then adaptiveTick d e else e)"
| "exec (SetNoiseVolume v) e = setNoiseVolume v e"
| "exec (StartNoise t v) e = startNoise t v e"
| "exec StopNoise e = stopNoise e"
| "exec (SetMusicVolume v) e = setMusicVolume v e"
| "exec (PlayComposition ns) e = playComposition ns e"
| "exec (SetReverbMix v) e = setReverbMix v e"
| "exec (SetDelayMix v) e = setDelayMix v e"
| "exec (SetBinauralVolume v) e = setBinauralVolume v e"
| "exec (StartBinaural c b v) e = startBinaural c b v e"
| "exec StopBinaural e = stopBinaural e"
| "exec StopAll e = stopAll e"
| "exec MasterRestore e = stopAll_restore e"
| "exec (ClockAdvance dt) e = e\<lparr>currentTime := currentTime e + \<bar>dt\<bar>\<rparr>"

definition run :: "EngineEvent list \<Rightarrow> AudioEngine" where
  "run evs = foldl (\<lambda>e ev. exec ev e) newEngine evs"

subsection \<open>Observations and invariants of engine states\<close>

text \<open>What the properties below read off a graph: a node's kind and run state.\<close>

definition kindOf :: "AudioGraph \<Rightarrow> nat \<Rightarrow> NodeKind option" where
  "kindOf g i = map_option kind (nodes g i)"

definition startedOf :: "AudioGraph \<Rightarrow> nat \<Rightarrow> bool" where
  "startedOf g i = (case nodes g i of Some n \<Rightarrow> startedAt n \<noteq> None | None \<Rightarrow> False)"

definition stoppedOf :: "AudioGraph \<Rightarrow> nat \<Rightarrow> bool" where
  "stoppedOf g i = (case nodes g i of Some n \<Rightarrow> stoppedAt n \<noteq> None | None \<Rightarrow> False)"

definition paramOf :: "AudioGraph \<Rightarrow> nat \<Rightarrow> real option" where
  "paramOf g i = map_option paramValue (nodes g i)"

text \<open>
  A node runs as a source of kind \<open>k\<close> when it is of that kind, was started, and no
  stop was requested or scheduled for it. (The voices of a melody get their stop
  scheduled together with their start; the noise source and the binaural oscillators
  run until they are stopped.)
\<close>

definition runs :: "AudioGraph \<Rightarrow> NodeKind \<Rightarrow> nat \<Rightarrow> bool" where
  "runs g k i = (kindOf g i = Some k \<and> startedOf g i \<and> \<not> stoppedOf g i)"

definition outgoing :: "AudioGraph \<Rightarrow> nat \<Rightarrow> Connection set" where
  "outgoing g i = {c \<in> connections g. fst c = i}"

definition activeNoiseSources :: "AudioEngine \<Rightarrow> nat list" where
  "activeNoiseSources e =
     filter (runs (graph e) AudioBufferSourceNode) [0 ..< nextNode (graph e)]"

definition activeOscillators :: "AudioEngine \<Rightarrow> nat list" where
  "activeOscillators e =
     filter (runs (graph e) OscillatorNode) [0 ..< nextNode (graph e)]"

text \<open>Signal flows from \<open>s\<close> to \<open>d\<close> along one or more connections.\<close>

inductive flows :: "AudioGraph \<Rightarrow> nat \<Rightarrow> nat \<Rightarrow> bool" for g :: AudioGraph where
  flows_direct: "(s, d, outp, inp) \<in> connections g \<Longrightarrow> flows g s d"
| flows_step: "flows g s m \<Longrightarrow> (m, d, outp, inp) \<in> connections g \<Longrightarrow> flows g s d"

text \<open>Identifiers not handed out yet name no node.\<close>

definition storeOk :: "AudioGraph \<Rightarrow> bool" where
  "storeOk g = (\<forall>i. nextNode g \<le> i \<longrightarrow> kindOf g i = None)"

text \<open>
  A connection is harmless for the microphone when its source exists, is not an
  analyser, and, if it is a microphone source, its destination is an analyser.
\<close>

definition connOk :: "AudioGraph \<Rightarrow> Connection \<Rightarrow> bool" where
  "connOk g c =
     (kindOf g (fst c) \<noteq> None \<and> kindOf g (fst c) \<noteq> Some AnalyserNode \<and>
      (kindOf g (fst c) = Some MediaStreamAudioSourceNode \<longrightarrow>
         kindOf g (fst (snd c)) = Some AnalyserNode))"

definition micIsolated :: "AudioGraph \<Rightarrow> bool" where
  "micIsolated g = (\<forall>c \<in> connections g. connOk g c)"

definition graphOk :: "AudioGraph \<Rightarrow> bool" where
  "graphOk g = (storeOk g \<and> micIsolated g)"

text \<open>The context comes with its master gain; both are nodes of the right kind.\<close>

definition fieldsOk :: "AudioEngine \<Rightarrow> bool" where
  "fieldsOk e =
     ((ctx e \<noteq> None \<longrightarrow> masterGain e \<noteq> None) \<and>
      (\<forall>m. masterGain e = Some m \<longrightarrow> kindOf (graph e) m = Some GainNode) \<and>
      (\<forall>c. ctx e = Some c \<longrightarrow> kindOf (graph e) c = Some AudioDestinationNode))"

text \<open>
  The sources and the fields that hold them: the noise source held is a running
  buffer source and the only one; the two oscillators held are running, distinct, and
  the only running oscillators.
\<close>

definition sourcesOk :: "AudioEngine \<Rightarrow> bool" where
  "sourcesOk e =
     ((\<forall>i. noiseSource e = Some i \<longrightarrow> runs (graph e) AudioBufferSourceNode i) \<and>
      (\<forall>i. runs (graph e) AudioBufferSourceNode i \<longrightarrow> noiseSource e = Some i) \<and>
      (\<forall>i. leftOsc e = Some i \<longrightarrow> runs (graph e) OscillatorNode i) \<and>
      (\<forall>i. rightOsc e = Some i \<longrightarrow> runs (graph e) OscillatorNode i) \<and>
      (\<forall>i. runs (graph e) OscillatorNode i \<longrightarrow> leftOsc e = Some i \<or> rightOsc e = Some i) \<and>
      (\<forall>i. leftOsc e = Some i \<longrightarrow> rightOsc e \<noteq> Some i))"

definition engineOk :: "AudioEngine \<Rightarrow> bool" where
  "engineOk e = (graphOk (graph e) \<and> fieldsOk e \<and> sourcesOk e)"

text \<open>
  Two relations between a state and a later one, used to carry the invariants over
  the methods: \<open>kindFrame\<close> says that the nodes that existed keep their kind,
  \<open>calm\<close> moreover that the same sources run and the same ones are held.
\<close>

definition kindFrame :: "AudioEngine \<Rightarrow> AudioEngine \<Rightarrow> bool" where
  "kindFrame e e' =
     (nextNode (graph e) \<le> nextNode (graph e') \<and>
      (\<forall>i. i < nextNode (graph e) \<longrightarrow> kindOf (graph e') i = kindOf (graph e) i))"

definition calm :: "AudioEngine \<Rightarrow> AudioEngine \<Rightarrow> bool" where
  "calm e e' =
     (kindFrame e e' \<and>
      noiseSource e' = noiseSource e \<and> leftOsc e' = leftOsc e \<and> rightOsc e' = rightOsc e \<and>
      (storeOk (graph e) \<longrightarrow>
         storeOk (graph e') \<and> (\<forall>K i. runs (graph e') K i = runs (graph e) K i)))"

section \<open>Example inputs\<close>

definition exampleStation :: Station where
  "exampleStation =
     \<lparr> stId = ''delta'', stName = ''Deep Station'', carrier = 150, beat = 5 / 2,
       desc = ''Delta (1-3Hz)'', mood = ''Deep sleep, cosmic, heavy slow pads'' \<rparr>"

definition trackA :: Composition where
  "trackA =
     \<lparr> name = ''A'', bpm = 40, key = None,
       noteList = [\<lparr> noteName = ''A4'', duration = 5 / 2, startTime = 10, velocity = 1 \<rparr>,
                   \<lparr> noteName = ''C4'', duration = 4, startTime = 0, velocity = 1 \<rparr>],
       description = ''first'', tags = None \<rparr>"

definition trackB :: Composition where
  "trackB =
     \<lparr> name = ''B'', bpm = 40, key = None,
       noteList = [\<lparr> noteName = ''E4'', duration = 3, startTime = 1, velocity = 1 \<rparr>],
       description = ''second'', tags = None \<rparr>"

definition emptyTrack :: Composition where
  "emptyTrack =
     \<lparr> name = ''E'', bpm = 40, key = None, noteList = [], description = ''no notes'',
       tags = None \<rparr>"

definition exampleApp :: App where
  "exampleApp =
     \<lparr> isPlaying = True, currentStation = exampleStation, volNoise = 3 / 20,
       noiseType = BROWN, composition = Some trackA, nextComposition = Some trackB,
       isGenerating = False, library = [], showLibrary = False, musicLoopRef = None \<rparr>"


text \<open>Runs of the engine: noise, then the binaural pair; noise, then the microphone.\<close>

definition noiseOn :: "EngineEvent list" where
  "noiseOn = [StartNoise WHITE (1 / 10)]"

definition noiseAndBinaural :: "EngineEvent list" where
  "noiseAndBinaural = [StartNoise WHITE (1 / 10), StartBinaural 150 (5 / 2) (1 / 2)]"

definition noiseAndMic :: "EngineEvent list" where
  "noiseAndMic = [StartNoise BROWN (15 / 100), EnableAdaptiveNoise True, MicGranted 0]"

text \<open>
  A composer that answers with the text \<open>{}\<close>, and \<open>JSON.parse\<close> at that text (a
  valid JSON text for the object without fields).
\<close>

definition answersEmptyObject :: "Prompt \<Rightarrow> ApiOutcome" where
  "answersEmptyObject p = Resolved (Some ''{}'')"

definition answersGarbage :: "Prompt \<Rightarrow> ApiOutcome" where
  "answersGarbage p = Resolved (Some ''{oops'')"

definition JSON_parse_at_braces :: "string \<Rightarrow> json option" where
  "JSON_parse_at_braces t = (if t = ''{}'' then Some (JObject []) else None)"

section \<open>Properties\<close>

subsection \<open>Library functions\<close>

lemma Math_max_eq: "Math_max xs = (if xs = [] then NegInfinity else Num (Max (set xs)))"
  by (induction xs) (auto simp: max_def Max_insert2 split: jsnum.splits)

lemma indexOf_ge: "- 1 \<le> indexOf xs x"
  by (induction xs) (auto simp: Let_def)

lemma indexOf_mem: "x \<in> set xs \<Longrightarrow> indexOf xs x \<noteq> - 1"
proof (induction xs)
  case Nil
  then show ?case by simp
next
  case (Cons y ys)
  show ?case using Cons indexOf_ge[of ys x] by (auto simp: Let_def)
qed

lemma indexOf_not_mem: "x \<notin> set xs \<Longrightarrow> indexOf xs x = - 1"
  by (induction xs) (auto simp: Let_def)

lemma is_digit_cases: "is_digit c \<Longrightarrow> c \<in> set ''0123456789''"
  using indexOf_not_mem[of c "''0123456789''"] unfolding is_digit_def by blast

lemma digit_not_space:
  "c \<in> set ''0123456789'' \<Longrightarrow> \<not> is_space c \<and> c \<noteq> CHR ''-'' \<and> c \<noteq> CHR ''+''"
  by (auto simp: is_space_def)

lemma parseInt_digit: "is_digit c \<Longrightarrow> parseInt [c] = Some (digit_val c)"
  using digit_not_space[OF is_digit_cases, of c]
  by (simp add: parseInt_def digit_val_def)

subsection \<open>Segment scheduler: the delay to the next tick\<close>

text \<open>
  For a track with notes whose largest end time is not zero, the timer is armed with
  that end time, in milliseconds.
\<close>

lemma loopTimeMs_nonempty:
  assumes "noteList track \<noteq> []"
    and "Max (set (map (\<lambda>n. startTime n + duration n) (noteList track))) \<noteq> 0"
  shows "loopTimeMs track =
           Num (Max (set (map (\<lambda>n. startTime n + duration n) (noteList track))) * 1000)"
  using assms by (simp add: loopTimeMs_def maxDuration_def Math_max_eq js_or_def js_times_def)

text \<open>
  C1. The claim: the delay to the next tick is the maximum of \<open>startTime + duration\<close>
  over the notes, and 15 seconds when the track has no notes. On a track without
  notes the code does not reach its fallback: \<open>Math.max()\<close> of no argument is
  \<open>-Infinity\<close>, which is truthy, so \<open>|| 15\<close> keeps it and the timer is armed with
  \<open>-Infinity\<close> milliseconds instead of 15000.
\<close>

theorem playMusicLoop_empty_track:
  "loopTimeMs emptyTrack = NegInfinity \<and>
   playMusicLoop (exampleApp\<lparr>composition := Some emptyTrack, nextComposition := None\<rparr>)
     = [SetIsGenerating True,
        CallGenerateLullaby
          \<lparr> reqMood = mood exampleStation, reqPreviousContext = Some ''E'',
            reqCarrier = 150, reqBeat = 5 / 2 \<rparr>,
        CallPlayComposition [],
        SetTimeout NegInfinity]"
  by (simp add: loopTimeMs_def maxDuration_def js_or_def js_times_def emptyTrack_def
      playMusicLoop_def exampleApp_def generateNextSegment_def exampleStation_def)

subsection \<open>Pitch names\<close>

text \<open>
  A name made of a key of the table and one decimal digit gets the equal-temperament
  frequency of MIDI number \<open>(octave + 1) * 12 + semitone\<close>; a name whose key part is
  not in the table gets 200.
\<close>

lemma getFrequency_valid:
  assumes "k \<in> set noteNames" and "is_digit c"
  shows "getFrequency (k @ [c]) =
    Num (440 * 2 powr ((real_of_int ((digit_val c + 1) * 12 + indexOf noteNames k) - 69) / 12))"
proof -
  have "indexOf noteNames k \<noteq> - 1" using assms(1) by (rule indexOf_mem)
  moreover have "slice_last (k @ [c]) = [c]" by (simp add: slice_last_def)
  moreover have "slice_init (k @ [c]) = k" by (simp add: slice_init_def)
  ultimately show ?thesis unfolding getFrequency_def Let_def
    by (simp only: parseInt_digit[OF assms(2)] if_False option.case)
qed

lemma getFrequency_A4: "getFrequency ''A4'' = Num 440"
  by (simp add: getFrequency_def parseInt_def slice_last_def slice_init_def noteNames_def
      is_digit_def is_space_def digit_val_def)

lemma getFrequency_unknown_key:
  "slice_init n \<notin> set noteNames \<Longrightarrow> getFrequency n = Num 200"
  by (simp add: getFrequency_def Let_def indexOf_not_mem)

text \<open>
  C4. The claim: a valid pitch name is converted by \<open>440 * 2^((midi - 69) / 12)\<close>, and
  every unrecognised name gets a fixed fallback frequency. The fallback is taken only
  when the key part is unknown. For the name \<open>C#\<close> (a sharp with no octave) the key
  part is \<open>C\<close>, which is in the table, the octave is \<open>parseInt("#")\<close>, and the
  result is \<open>NaN\<close>, not the fallback 200.
\<close>

theorem getFrequency_sharp_without_octave:
  "getFrequency ''C#'' = NaN"
  by (simp add: getFrequency_def parseInt_def slice_last_def slice_init_def noteNames_def
      is_digit_def is_space_def)

subsection \<open>The composer's answer\<close>

text \<open>
  C6, as stated: an answer that is structurally invalid gives "no composition". The
  answer \<open>{}\<close> parses to an object with none of the required fields, and
  \<open>generateLullaby\<close> returns that object.
\<close>

theorem generateLullaby_unvalidated:
  "JSON_parse_at_braces ''{}'' = Some (JObject []) \<and>
   \<not> structurallyValid (JObject []) \<and>
   generateLullaby answersEmptyObject JSON_parse_at_braces ''calm'' None 200 4 = JObject [] \<and>
   generateLullaby answersEmptyObject JSON_parse_at_braces ''calm'' None 200 4 \<noteq> JNull"
  by (simp add: generateLullaby_def answersEmptyObject_def JSON_parse_at_braces_def
      structurallyValid_def requiredFields_def)

text \<open>
  C6, amended: when the request fails, or the answer has no text or an empty text, or
  the text does not parse as JSON, \<open>generateLullaby\<close> resolves to "no composition"
  (and it never rejects: the function is total and every failure is a branch of it);
  a non-empty text that parses is returned as parsed, whatever fields it has.
\<close>

theorem generateLullaby_result:
  "((generateContent (buildPrompt m pc cf bf) = Rejected \<or>
     generateContent (buildPrompt m pc cf bf) = Resolved None \<or>
     generateContent (buildPrompt m pc cf bf) = Resolved (Some []) \<or>
     (\<exists>t. generateContent (buildPrompt m pc cf bf) = Resolved (Some t) \<and> JSON_parse t = None))
    \<longrightarrow> generateLullaby generateContent JSON_parse m pc cf bf = JNull) \<and>
   (\<forall>t v. generateContent (buildPrompt m pc cf bf) = Resolved (Some t) \<and> t \<noteq> [] \<and>
          JSON_parse t = Some v
    \<longrightarrow> generateLullaby generateContent JSON_parse m pc cf bf = v)"
  by (auto simp: generateLullaby_def)

theorem generateLullaby_result_witness:
  "generateLullaby answersGarbage JSON_parse_at_braces ''calm'' None 200 4 = JNull \<and>
   generateLullaby answersEmptyObject JSON_parse_at_braces ''calm'' None 200 4 = JObject []"
proof -
  have g: "answersGarbage (buildPrompt ''calm'' None 200 4) = Resolved (Some ''{oops'') \<and>
           JSON_parse_at_braces ''{oops'' = None"
    by (simp add: answersGarbage_def JSON_parse_at_braces_def)
  have e: "answersEmptyObject (buildPrompt ''calm'' None 200 4) = Resolved (Some ''{}'') \<and>
           ''{}'' \<noteq> [] \<and> JSON_parse_at_braces ''{}'' = Some (JObject [])"
    by (simp add: answersEmptyObject_def JSON_parse_at_braces_def)
  show ?thesis
    using g e
      generateLullaby_result [of answersGarbage "''calm''" None 200 4 JSON_parse_at_braces]
      generateLullaby_result [of answersEmptyObject "''calm''" None 200 4 JSON_parse_at_braces]
    by blast
qed

subsection \<open>Segment scheduler: promoting the prefetched track\<close>

text \<open>
  In a tick that finds a prefetched track, the request for the following one carries
  the name of \<open>composition\<close> as the handler's render saw it.
\<close>

lemma playMusicLoop_request_context:
  assumes "isPlaying s" and "nextComposition s = Some n" and "composition s = Some c"
    and "CallGenerateLullaby r \<in> set (playMusicLoop s)"
  shows "reqPreviousContext r = Some (name c)"
  using assms by (auto simp: playMusicLoop_def generateNextSegment_def split: if_splits)

text \<open>
  C7. The claim: a tick that finds a prefetched track promotes it, clears \<open>next\<close> and
  requests a new track with the promoted track's name as the previous-track context.
  With current track \<open>A\<close> and prefetched track \<open>B\<close> the tick promotes \<open>B\<close> and clears
  \<open>next\<close>, but the request it fires names \<open>A\<close>: \<open>generateNextSegment\<close> reads
  \<open>composition\<close> from the render that created it, before the promotion takes effect.
\<close>

text \<open>A tick whose track makes \<open>playComposition\<close> throw arms no timer.\<close>

lemma playMusicLoop_throwing_track:
  assumes "isPlaying s" and "nextComposition s = None" and "composition s = Some t"
    and "playCompositionThrows (noteList t)"
  shows "SetTimeout d \<notin> set (playMusicLoop s)"
  using assms by (auto simp: playMusicLoop_def generateNextSegment_def)

lemma trackB_plays: "playCompositionThrows (noteList trackB) = False"
  by (simp add: trackB_def getFrequency_def parseInt_def slice_last_def slice_init_def
      noteNames_def is_digit_def is_space_def digit_val_def)

theorem playMusicLoop_promote:
  "playMusicLoop exampleApp
     = [SetComposition (Some trackB), SetNextComposition None,
        SetIsGenerating True,
        CallGenerateLullaby
          \<lparr> reqMood = mood exampleStation, reqPreviousContext = Some ''A'',
            reqCarrier = 150, reqBeat = 5 / 2 \<rparr>,
        CallPlayComposition (noteList trackB),
        SetTimeout (Num 4000)]"
  by (simp add: playMusicLoop_def exampleApp_def generateNextSegment_def exampleStation_def
      trackB_plays)
     (simp add: loopTimeMs_def maxDuration_def js_or_def js_times_def trackA_def trackB_def)

subsection \<open>Presets\<close>



subsection \<open>The signal graph: how the primitives act on the observations\<close>

lemma kindOf_allocNode [simp]:
  "kindOf (allocNode k g) i = (if i = nextNode g then Some k else kindOf g i)"
  by (simp add: kindOf_def allocNode_def newNode_def)

lemma kindOf_modifyNode [simp]:
  "(\<And>n. kind (f n) = kind n) \<Longrightarrow> kindOf (modifyNode j f g) i = kindOf g i"
  by (cases "nodes g j") (simp_all add: kindOf_def modifyNode_def)

lemma kindOf_addConnection [simp]: "kindOf (addConnection c g) i = kindOf g i"
  by (simp add: kindOf_def addConnection_def)

lemma kindOf_removeOutgoing [simp]: "kindOf (removeOutgoing s g) i = kindOf g i"
  by (simp add: kindOf_def removeOutgoing_def)

lemma nextNode_prims [simp]:
  "nextNode (allocNode k g) = Suc (nextNode g)"
  "nextNode (modifyNode j f g) = nextNode g"
  "nextNode (addConnection c g) = nextNode g"
  "nextNode (removeOutgoing s g) = nextNode g"
  by (simp_all add: allocNode_def modifyNode_def addConnection_def removeOutgoing_def)

lemma connections_prims [simp]:
  "connections (allocNode k g) = connections g"
  "connections (modifyNode j f g) = connections g"
  "connections (addConnection c g) = insert c (connections g)"
  "connections (removeOutgoing s g) = {c \<in> connections g. fst c \<noteq> s}"
  by (simp_all add: allocNode_def modifyNode_def addConnection_def removeOutgoing_def)

lemma startedOf_allocNode [simp]:
  "startedOf (allocNode k g) i = (i \<noteq> nextNode g \<and> startedOf g i)"
  by (simp add: startedOf_def allocNode_def newNode_def)

lemma stoppedOf_allocNode [simp]:
  "stoppedOf (allocNode k g) i = (i \<noteq> nextNode g \<and> stoppedOf g i)"
  by (simp add: stoppedOf_def allocNode_def newNode_def)

lemma startedOf_modifyNode [simp]:
  "(\<And>n. startedAt (f n) = startedAt n) \<Longrightarrow> startedOf (modifyNode j f g) i = startedOf g i"
  by (cases "nodes g j") (simp_all add: startedOf_def modifyNode_def)

lemma stoppedOf_modifyNode [simp]:
  "(\<And>n. stoppedAt (f n) = stoppedAt n) \<Longrightarrow> stoppedOf (modifyNode j f g) i = stoppedOf g i"
  by (cases "nodes g j") (simp_all add: stoppedOf_def modifyNode_def)

lemma startedOf_start [simp]:
  "startedOf (modifyNode j (\<lambda>n. n\<lparr>startedAt := Some t\<rparr>) g) i =
     (if i = j then kindOf g j \<noteq> None else startedOf g i)"
  by (cases "nodes g j") (simp_all add: startedOf_def kindOf_def modifyNode_def)

lemma stoppedOf_stop [simp]:
  "stoppedOf (modifyNode j (\<lambda>n. n\<lparr>stoppedAt := Some t\<rparr>) g) i =
     (if i = j then kindOf g j \<noteq> None else stoppedOf g i)"
  by (cases "nodes g j") (simp_all add: stoppedOf_def kindOf_def modifyNode_def)

lemma runstate_connections [simp]:
  "startedOf (addConnection c g) i = startedOf g i"
  "stoppedOf (addConnection c g) i = stoppedOf g i"
  "startedOf (removeOutgoing s g) i = startedOf g i"
  "stoppedOf (removeOutgoing s g) i = stoppedOf g i"
  by (simp_all add: startedOf_def stoppedOf_def addConnection_def removeOutgoing_def)

lemma storeOk_fresh: "storeOk g \<Longrightarrow> nextNode g \<le> i \<Longrightarrow> kindOf g i = None"
  by (simp add: storeOk_def)

lemma started_kind: "startedOf g i \<Longrightarrow> kindOf g i \<noteq> None"
  by (simp add: startedOf_def kindOf_def split: option.splits)

lemma connOk_allocNode:
  "storeOk g \<Longrightarrow> connOk g c \<Longrightarrow> connOk (allocNode k g) c"
  unfolding storeOk_def connOk_def by (auto split: if_splits)

lemma graphOk_allocNode [simp]: "graphOk g \<Longrightarrow> graphOk (allocNode k g)"
  unfolding graphOk_def
proof (intro conjI)
  assume a: "storeOk g \<and> micIsolated g"
  show "storeOk (allocNode k g)" using a by (simp add: storeOk_def)
  show "micIsolated (allocNode k g)"
    using a connOk_allocNode[of g _ k] by (simp add: micIsolated_def)
qed

lemma graphOk_modifyNode [simp]:
  "graphOk g \<Longrightarrow> (\<And>n. kind (f n) = kind n) \<Longrightarrow> graphOk (modifyNode j f g)"
  unfolding graphOk_def storeOk_def micIsolated_def connOk_def by simp

lemma graphOk_addConnection [simp]:
  "graphOk g \<Longrightarrow> kindOf g s \<noteq> None \<Longrightarrow> kindOf g s \<noteq> Some AnalyserNode \<Longrightarrow>
   (kindOf g s = Some MediaStreamAudioSourceNode \<longrightarrow> kindOf g d = Some AnalyserNode) \<Longrightarrow>
   graphOk (addConnection (s, d, outp, inp) g)"
  unfolding graphOk_def storeOk_def micIsolated_def connOk_def by simp

lemma graphOk_removeOutgoing [simp]: "graphOk g \<Longrightarrow> graphOk (removeOutgoing s g)"
  unfolding graphOk_def storeOk_def micIsolated_def connOk_def by simp

lemmas wrap_defs = createNode_def updNode_def connect_def disconnect_def setValue_def
  schedule_def start_def stop_def

lemma graphOk_initContext [simp]:
  "graphOk (graph e) \<Longrightarrow> graphOk (graph (initContext e))"
  by (simp add: initContext_def wrap_defs Let_def)

lemma graphOk_tryStopDisconnect [simp]:
  "graphOk (graph e) \<Longrightarrow> graphOk (graph (tryStopDisconnect i e))"
  by (simp add: tryStopDisconnect_def wrap_defs split: option.splits)

lemma graphOk_stopBinaural [simp]:
  "graphOk (graph e) \<Longrightarrow> graphOk (graph (stopBinaural e))"
  by (simp add: stopBinaural_def Let_def split: option.splits)

lemma graphOk_startBinaural [simp]:
  "graphOk (graph e) \<Longrightarrow> graphOk (graph (startBinaural c b v e))"
  by (simp add: startBinaural_def wrap_defs Let_def split: option.splits)

lemma graphOk_stopNoise [simp]:
  "graphOk (graph e) \<Longrightarrow> graphOk (graph (stopNoise e))"
  by (simp add: stopNoise_def split: option.splits)

lemma graphOk_startNoise [simp]:
  "graphOk (graph e) \<Longrightarrow> graphOk (graph (startNoise t v e))"
  by (simp add: startNoise_def wrap_defs Let_def split: option.splits)

lemma graphOk_updateNoiseGain [simp]:
  "graphOk (graph e) \<Longrightarrow> graphOk (graph (updateNoiseGain v e))"
  by (simp add: updateNoiseGain_def wrap_defs split: option.splits)

lemma graphOk_enableAdaptiveNoise_wire [simp]:
  "graphOk (graph e) \<Longrightarrow> graphOk (graph (enableAdaptiveNoise_wire e))"
  by (simp add: enableAdaptiveNoise_wire_def startAdaptiveLoop_def wrap_defs Let_def)

lemma graphOk_enableAdaptiveNoise [simp]:
  "graphOk (graph e) \<Longrightarrow> graphOk (graph (enableAdaptiveNoise b e))"
  by (simp add: enableAdaptiveNoise_def stopAdaptiveLoop_def Let_def)

lemma graphOk_playVoice [simp]:
  "graphOk (graph e) \<Longrightarrow> graphOk (graph (fst (playVoice now n e)))"
  by (simp add: playVoice_def wrap_defs Let_def split: option.splits jsnum.splits)

lemma graphOk_playNotes [simp]:
  "graphOk (graph e) \<Longrightarrow> graphOk (graph (playNotes now ns e))"
proof (induction ns arbitrary: e)
  case Nil
  then show ?case by simp
next
  case (Cons n ns)
  from Cons.prems have "graphOk (graph (fst (playVoice now n e)))" by simp
  with Cons.IH show ?case by (simp add: split_def)
qed

lemma graphOk_createMusicGain [simp]:
  "graphOk (graph e) \<Longrightarrow> graphOk (graph (createMusicGain e))"
  by (simp add: createMusicGain_def wrap_defs Let_def split: option.splits)

lemma graphOk_playComposition [simp]:
  "graphOk (graph e) \<Longrightarrow> graphOk (graph (playComposition ns e))"
  by (simp add: playComposition_def Let_def)

lemma graphOk_setters [simp]:
  "graphOk (graph e) \<Longrightarrow> graphOk (graph (setMusicVolume v e))"
  "graphOk (graph e) \<Longrightarrow> graphOk (graph (setReverbMix v e))"
  "graphOk (graph e) \<Longrightarrow> graphOk (graph (setDelayMix v e))"
  "graphOk (graph e) \<Longrightarrow> graphOk (graph (setBinauralVolume v e))"
  "graphOk (graph e) \<Longrightarrow> graphOk (graph (setNoiseVolume v e))"
  "graphOk (graph e) \<Longrightarrow> graphOk (graph (stopAll_restore e))"
  "graphOk (graph e) \<Longrightarrow> graphOk (graph (adaptiveTick d e))"
  by (simp_all add: setMusicVolume_def setReverbMix_def setDelayMix_def setBinauralVolume_def
      setNoiseVolume_def stopAll_restore_def adaptiveTick_def wrap_defs Let_def
      split: option.splits)

lemma graphOk_stopAll [simp]:
  "graphOk (graph e) \<Longrightarrow> graphOk (graph (stopAll e))"
  by (simp add: stopAll_def stopAdaptiveLoop_def wrap_defs Let_def split: option.splits)

lemma graphOk_exec: "graphOk (graph e) \<Longrightarrow> graphOk (graph (exec ev e))"
  by (cases ev) (simp_all add: resume_def enableAdaptiveNoise_granted_def
      enableAdaptiveNoise_failed_def)

lemma run_snoc: "run (evs @ [ev]) = exec ev (run evs)"
  by (simp add: run_def)

lemma graphOk_newEngine: "graphOk (graph newEngine)"
  by (simp add: newEngine_def graphOk_def storeOk_def micIsolated_def kindOf_def)

lemma graphOk_run: "graphOk (graph (run evs))"
proof (induction evs rule: rev_induct)
  case Nil
  show ?case by (simp add: run_def graphOk_newEngine)
next
  case (snoc ev evs)
  then show ?case by (simp add: run_snoc graphOk_exec)
qed

lemma flows_from_mic:
  assumes "micIsolated g" and "flows g s d" and "kindOf g s = Some MediaStreamAudioSourceNode"
  shows "kindOf g d = Some AnalyserNode"
  using assms(2,1,3)
proof (induction rule: flows.induct)
  case (flows_direct s d outp inp)
  then show ?case by (auto simp: micIsolated_def connOk_def)
next
  case (flows_step s m d outp inp)
  then have "kindOf g m = Some AnalyserNode" by simp
  moreover have "connOk g (m, d, outp, inp)" using flows_step by (auto simp: micIsolated_def)
  ultimately show ?case by (simp add: connOk_def)
qed

subsection \<open>Frames: what the methods leave unchanged\<close>

lemma fresh_kind [simp]: "storeOk g \<Longrightarrow> nextNode g \<le> i \<Longrightarrow> kindOf g i = None"
  by (simp add: storeOk_def)

lemma fresh_started [simp]: "storeOk g \<Longrightarrow> nextNode g \<le> i \<Longrightarrow> startedOf g i = False"
  using fresh_kind[of g i] by (auto simp: startedOf_def kindOf_def split: option.splits)

lemma fresh_stopped [simp]: "storeOk g \<Longrightarrow> nextNode g \<le> i \<Longrightarrow> stoppedOf g i = False"
  using fresh_kind[of g i] by (auto simp: stoppedOf_def kindOf_def split: option.splits)

lemma runs_allocNode [simp]:
  "runs (allocNode k g) K i = (i \<noteq> nextNode g \<and> runs g K i)"
  by (auto simp: runs_def)

lemma runs_modifyNode [simp]:
  "(\<And>n. kind (f n) = kind n) \<Longrightarrow> (\<And>n. startedAt (f n) = startedAt n) \<Longrightarrow>
   (\<And>n. stoppedAt (f n) = stoppedAt n) \<Longrightarrow> runs (modifyNode j f g) K i = runs g K i"
  by (simp add: runs_def)

lemma runs_connections [simp]:
  "runs (addConnection c g) K i = runs g K i"
  "runs (removeOutgoing s g) K i = runs g K i"
  by (simp_all add: runs_def)

lemma runs_stop:
  "runs (modifyNode j (\<lambda>n. n\<lparr>stoppedAt := Some t\<rparr>) g) K i = (i \<noteq> j \<and> runs g K i)"
  by (auto simp: runs_def)

lemma runs_start:
  "runs (modifyNode j (\<lambda>n. n\<lparr>startedAt := Some t\<rparr>) g) K i =
     (if i = j then kindOf g j = Some K \<and> \<not> stoppedOf g j else runs g K i)"
  by (auto simp: runs_def)

lemma runs_start_stop [simp]:
  "runs (modifyNode j (\<lambda>n. n\<lparr>stoppedAt := Some t\<rparr>)
          (modifyNode j (\<lambda>n. n\<lparr>startedAt := Some t'\<rparr>) g)) K i = (i \<noteq> j \<and> runs g K i)"
  by (auto simp: runs_def)

lemma runs_lt: "storeOk g \<Longrightarrow> runs g K i \<Longrightarrow> i < nextNode g"
  unfolding runs_def storeOk_def by (metis not_le_imp_less option.distinct(1))

lemma runs_kind: "runs g K i \<Longrightarrow> runs g K' i \<Longrightarrow> K = K'"
  by (simp add: runs_def)

lemma alloc_lt: "storeOk g \<Longrightarrow> kindOf g i = Some k \<Longrightarrow> i < nextNode g"
  unfolding storeOk_def by (metis not_le_imp_less option.distinct(1))

lemma graphOk_storeOk: "graphOk g \<Longrightarrow> storeOk g"
  by (simp add: graphOk_def)

lemma storeOk_prims [simp]:
  "storeOk g \<Longrightarrow> storeOk (allocNode k g)"
  "(\<And>n. kind (f n) = kind n) \<Longrightarrow> storeOk (modifyNode j f g) = storeOk g"
  "storeOk (addConnection c g) = storeOk g"
  "storeOk (removeOutgoing s g) = storeOk g"
  by (simp_all add: storeOk_def)

lemma calm_refl [simp]: "calm e e"
  by (simp add: calm_def kindFrame_def)

lemma kindFrame_refl [simp]: "kindFrame e e"
  by (simp add: kindFrame_def)

lemma kindFrame_trans: "kindFrame e e' \<Longrightarrow> kindFrame e' e'' \<Longrightarrow> kindFrame e e''"
  by (auto simp: kindFrame_def)

lemma calm_trans: "calm e e' \<Longrightarrow> calm e' e'' \<Longrightarrow> calm e e''"
  unfolding calm_def using kindFrame_trans by auto

lemma calmI:
  assumes "kindFrame e e'"
    and "noiseSource e' = noiseSource e" and "leftOsc e' = leftOsc e" and "rightOsc e' = rightOsc e"
    and "storeOk (graph e) \<Longrightarrow> storeOk (graph e')"
    and "\<And>K i. storeOk (graph e) \<Longrightarrow> runs (graph e') K i = runs (graph e) K i"
  shows "calm e e'"
  using assms by (simp add: calm_def)

lemma fields_initContext [simp]:
  "ctx e \<noteq> None \<Longrightarrow> initContext e = e"
  "ctx (initContext e) \<noteq> None"
  "noiseSource (initContext e) = noiseSource e"
  "leftOsc (initContext e) = leftOsc e"
  "rightOsc (initContext e) = rightOsc e"
  by (simp_all add: initContext_def wrap_defs Let_def)

lemma kindFrame_initContext: "kindFrame e (initContext e)"
  by (simp add: kindFrame_def initContext_def wrap_defs Let_def)

lemma storeOk_initContext [simp]: "storeOk (graph e) \<Longrightarrow> storeOk (graph (initContext e))"
  by (simp add: initContext_def wrap_defs Let_def)

lemma runs_initContext:
  "storeOk (graph e) \<Longrightarrow> runs (graph (initContext e)) K i = runs (graph e) K i"
  by (auto simp: initContext_def wrap_defs Let_def dest: runs_lt)

lemma calm_initContext: "calm e (initContext e)"
  by (rule calmI) (simp_all add: kindFrame_initContext runs_initContext)

lemma fields_playVoice [simp]:
  "ctx (fst (playVoice now n e)) = ctx e"
  "masterGain (fst (playVoice now n e)) = masterGain e"
  "noiseSource (fst (playVoice now n e)) = noiseSource e"
  "leftOsc (fst (playVoice now n e)) = leftOsc e"
  "rightOsc (fst (playVoice now n e)) = rightOsc e"
  by (simp_all add: playVoice_def wrap_defs Let_def split: option.splits jsnum.splits)

lemma kindFrame_playVoice: "kindFrame e (fst (playVoice now n e))"
  by (simp add: kindFrame_def playVoice_def wrap_defs Let_def split: option.splits jsnum.splits)

lemma storeOk_playVoice [simp]:
  "storeOk (graph e) \<Longrightarrow> storeOk (graph (fst (playVoice now n e)))"
  by (simp add: playVoice_def wrap_defs Let_def split: option.splits jsnum.splits)

lemma runs_playVoice:
  "storeOk (graph e) \<Longrightarrow> runs (graph (fst (playVoice now n e))) K i = runs (graph e) K i"
  by (auto simp: playVoice_def wrap_defs Let_def split: option.splits jsnum.splits dest: runs_lt)

lemma calm_playVoice: "calm e (fst (playVoice now n e))"
  by (rule calmI) (simp_all add: kindFrame_playVoice runs_playVoice)

lemma fields_playNotes [simp]:
  "ctx (playNotes now ns e) = ctx e"
  "masterGain (playNotes now ns e) = masterGain e"
  by (induction ns arbitrary: e) (simp_all add: split_def)

lemma calm_playNotes: "calm e (playNotes now ns e)"
proof (induction ns arbitrary: e)
  case Nil
  show ?case by simp
next
  case (Cons n ns)
  show ?case using calm_playVoice[of e now n] Cons[of "fst (playVoice now n e)"]
    by (auto simp: split_def intro: calm_trans)
qed

lemma fields_createMusicGain [simp]:
  "ctx (createMusicGain e) = ctx e"
  "masterGain (createMusicGain e) = masterGain e"
  "noiseSource (createMusicGain e) = noiseSource e"
  "leftOsc (createMusicGain e) = leftOsc e"
  "rightOsc (createMusicGain e) = rightOsc e"
  by (simp_all add: createMusicGain_def wrap_defs Let_def split: option.splits)

lemma kindFrame_createMusicGain: "kindFrame e (createMusicGain e)"
  by (simp add: kindFrame_def createMusicGain_def wrap_defs Let_def split: option.splits)

lemma storeOk_createMusicGain [simp]:
  "storeOk (graph e) \<Longrightarrow> storeOk (graph (createMusicGain e))"
  by (simp add: createMusicGain_def wrap_defs Let_def split: option.splits)

lemma runs_createMusicGain:
  "storeOk (graph e) \<Longrightarrow> runs (graph (createMusicGain e)) K i = runs (graph e) K i"
  by (auto simp: createMusicGain_def wrap_defs Let_def split: option.splits dest: runs_lt)

lemma calm_createMusicGain: "calm e (createMusicGain e)"
  by (rule calmI) (simp_all add: kindFrame_createMusicGain runs_createMusicGain)

lemma fields_playComposition [simp]:
  "ctx e \<noteq> None \<Longrightarrow> ctx (playComposition ns e) = ctx e"
  "ctx e \<noteq> None \<Longrightarrow> masterGain (playComposition ns e) = masterGain e"
  by (simp_all add: playComposition_def Let_def)

lemma calm_playComposition: "ctx e \<noteq> None \<Longrightarrow> calm e (playComposition ns e)"
  using calm_trans[OF calm_createMusicGain calm_playNotes]
  by (simp add: playComposition_def Let_def)

text \<open>Methods that only schedule automation or set a value.\<close>

lemma calm_updNode:
  assumes "\<And>n. kind (f n) = kind n" "\<And>n. startedAt (f n) = startedAt n"
    "\<And>n. stoppedAt (f n) = stoppedAt n"
  shows "calm e (updNode i f e)"
  using assms by (intro calmI) (simp_all add: kindFrame_def updNode_def)

lemma calm_schedule [simp]: "calm e (schedule i evs e)"
  unfolding schedule_def by (rule calm_updNode) simp_all

lemma calm_setValue [simp]: "calm e (setValue i v e)"
  unfolding setValue_def by (rule calm_updNode) simp_all

lemma fields_schedule [simp]:
  "ctx (schedule i evs e) = ctx e" "masterGain (schedule i evs e) = masterGain e"
  "ctx (setValue i v e) = ctx e" "masterGain (setValue i v e) = masterGain e"
  by (simp_all add: schedule_def setValue_def updNode_def)

lemma calm_setters:
  "calm e (updateNoiseGain v e)"
  "calm e (setMusicVolume v e)"
  "calm e (setReverbMix v e)"
  "calm e (setDelayMix v e)"
  "calm e (setBinauralVolume v e)"
  "calm e (stopAll_restore e)"
  "calm e (adaptiveTick d e)"
  by (simp_all add: updateNoiseGain_def setMusicVolume_def setReverbMix_def setDelayMix_def
      setBinauralVolume_def stopAll_restore_def adaptiveTick_def split: option.splits)

lemma fields_setters [simp]:
  "ctx (updateNoiseGain v e) = ctx e" "masterGain (updateNoiseGain v e) = masterGain e"
  "ctx (setMusicVolume v e) = ctx e" "masterGain (setMusicVolume v e) = masterGain e"
  "ctx (setReverbMix v e) = ctx e" "masterGain (setReverbMix v e) = masterGain e"
  "ctx (setDelayMix v e) = ctx e" "masterGain (setDelayMix v e) = masterGain e"
  "ctx (setBinauralVolume v e) = ctx e" "masterGain (setBinauralVolume v e) = masterGain e"
  "ctx (stopAll_restore e) = ctx e" "masterGain (stopAll_restore e) = masterGain e"
  "ctx (adaptiveTick d e) = ctx e" "masterGain (adaptiveTick d e) = masterGain e"
  by (simp_all add: updateNoiseGain_def setMusicVolume_def setReverbMix_def setDelayMix_def
      setBinauralVolume_def stopAll_restore_def adaptiveTick_def split: option.splits)

lemma calm_field_updates [simp]:
  "calm e (e\<lparr>baseNoiseVolume := v\<rparr>)"
  "calm e (e\<lparr>isAdaptive := b\<rparr>)"
  "calm e (e\<lparr>adaptiveInterval := b\<rparr>)"
  "calm e (e\<lparr>micStream := ms\<rparr>)"
  "calm e (e\<lparr>currentTime := t\<rparr>)"
  by (simp_all add: calm_def kindFrame_def)

lemma calm_setNoiseVolume: "calm e (setNoiseVolume v e)"
  using calm_trans[OF calm_field_updates(1) calm_setters(1)]
  by (simp add: setNoiseVolume_def Let_def)

lemma fields_setNoiseVolume [simp]:
  "ctx (setNoiseVolume v e) = ctx e" "masterGain (setNoiseVolume v e) = masterGain e"
  by (simp_all add: setNoiseVolume_def Let_def)

lemma fields_wire [simp]:
  "ctx e \<noteq> None \<Longrightarrow> ctx (enableAdaptiveNoise_wire e) = ctx e"
  "ctx e \<noteq> None \<Longrightarrow> masterGain (enableAdaptiveNoise_wire e) = masterGain e"
  by (simp_all add: enableAdaptiveNoise_wire_def startAdaptiveLoop_def wrap_defs Let_def)

lemma calm_wire: "ctx e \<noteq> None \<Longrightarrow> calm e (enableAdaptiveNoise_wire e)"
  by (rule calmI)
     (auto simp: kindFrame_def enableAdaptiveNoise_wire_def startAdaptiveLoop_def wrap_defs Let_def
       dest: runs_lt)

subsection \<open>The invariants are kept by every method\<close>

lemma wire_init: "enableAdaptiveNoise_wire (initContext e) = enableAdaptiveNoise_wire e"
  by (simp add: enableAdaptiveNoise_wire_def)

lemma startNoise_init: "startNoise t v (initContext e) = startNoise t v e"
  by (simp add: startNoise_def)

lemma startBinaural_init: "startBinaural c b v (initContext e) = startBinaural c b v e"
  by (simp add: startBinaural_def)

lemma playComposition_init: "playComposition ns (initContext e) = playComposition ns e"
  by (simp add: playComposition_def)

lemma fieldsOk_frame:
  assumes "fieldsOk e" and "storeOk (graph e)" and "kindFrame e e'"
    and "ctx e' = ctx e" and "masterGain e' = masterGain e"
  shows "fieldsOk e'"
  using assms alloc_lt[OF assms(2)] by (auto simp: fieldsOk_def kindFrame_def)

lemma sourcesOk_calm:
  assumes "sourcesOk e" and "storeOk (graph e)" and "calm e e'"
  shows "sourcesOk e'"
proof -
  from assms(2,3) have f: "noiseSource e' = noiseSource e" "leftOsc e' = leftOsc e"
    "rightOsc e' = rightOsc e" and r: "\<And>K i. runs (graph e') K i = runs (graph e) K i"
    by (simp_all add: calm_def)
  show ?thesis using assms(1) unfolding sourcesOk_def f r .
qed

lemma engineOk_calm:
  assumes "engineOk e" and "calm e e'" and "ctx e' = ctx e" and "masterGain e' = masterGain e"
    and "graphOk (graph e')"
  shows "engineOk e'"
  using assms fieldsOk_frame[of e e'] sourcesOk_calm[of e e']
  by (simp add: engineOk_def calm_def graphOk_storeOk)

lemma fieldsOk_initContext:
  assumes "fieldsOk e" and "storeOk (graph e)"
  shows "fieldsOk (initContext e)"
proof (cases "ctx e")
  case None
  then show ?thesis using assms alloc_lt[OF assms(2)]
    by (auto simp: fieldsOk_def initContext_def wrap_defs Let_def)
next
  case (Some c)
  then show ?thesis using assms by simp
qed

lemma engineOk_initContext: "engineOk e \<Longrightarrow> engineOk (initContext e)"
  using sourcesOk_calm[OF _ _ calm_initContext, of e] fieldsOk_initContext[of e]
  by (simp add: engineOk_def graphOk_storeOk)

lemma tryStop_started:
  "startedOf (graph e) i \<Longrightarrow>
   tryStopDisconnect i e = disconnect i (stop i (currentTime e) e)"
  by (auto simp: tryStopDisconnect_def startedOf_def split: option.splits)

lemma tryStop_not_started: "\<not> startedOf (graph e) i \<Longrightarrow> tryStopDisconnect i e = e"
  by (auto simp: tryStopDisconnect_def startedOf_def split: option.splits)

lemma runs_tryStop:
  "runs (graph (tryStopDisconnect i e)) K j =
     (if startedOf (graph e) i then j \<noteq> i \<and> runs (graph e) K j else runs (graph e) K j)"
  by (simp add: tryStop_started tryStop_not_started wrap_defs runs_stop)

lemma fields_tryStop [simp]:
  "ctx (tryStopDisconnect i e) = ctx e"
  "masterGain (tryStopDisconnect i e) = masterGain e"
  "noiseSource (tryStopDisconnect i e) = noiseSource e"
  "leftOsc (tryStopDisconnect i e) = leftOsc e"
  "rightOsc (tryStopDisconnect i e) = rightOsc e"
  "currentTime (tryStopDisconnect i e) = currentTime e"
  by (simp_all add: tryStopDisconnect_def wrap_defs split: option.splits)

lemma kinds_tryStop [simp]:
  "kindOf (graph (tryStopDisconnect i e)) j = kindOf (graph e) j"
  "nextNode (graph (tryStopDisconnect i e)) = nextNode (graph e)"
  by (simp_all add: tryStopDisconnect_def wrap_defs split: option.splits)

lemma kindFrame_tryStop [simp]: "kindFrame e (tryStopDisconnect i e)"
  by (simp add: kindFrame_def)

lemma storeOk_tryStop [simp]:
  "storeOk (graph (tryStopDisconnect i e)) = storeOk (graph e)"
  by (simp add: tryStopDisconnect_def wrap_defs split: option.splits)

lemma runs_started: "runs g K i \<Longrightarrow> startedOf g i"
  by (simp add: runs_def)

lemma fields_stopNoise [simp]:
  "ctx (stopNoise e) = ctx e"
  "masterGain (stopNoise e) = masterGain e"
  "noiseSource (stopNoise e) = None"
  "leftOsc (stopNoise e) = leftOsc e"
  "rightOsc (stopNoise e) = rightOsc e"
  "currentTime (stopNoise e) = currentTime e"
  by (simp_all add: stopNoise_def split: option.splits)

lemma sourcesOkI:
  assumes "\<And>i. noiseSource e = Some i \<Longrightarrow> runs (graph e) AudioBufferSourceNode i"
    and "\<And>i. runs (graph e) AudioBufferSourceNode i \<Longrightarrow> noiseSource e = Some i"
    and "\<And>i. leftOsc e = Some i \<Longrightarrow> runs (graph e) OscillatorNode i"
    and "\<And>i. rightOsc e = Some i \<Longrightarrow> runs (graph e) OscillatorNode i"
    and "\<And>i. runs (graph e) OscillatorNode i \<Longrightarrow> leftOsc e = Some i \<or> rightOsc e = Some i"
    and "\<And>i. leftOsc e = Some i \<Longrightarrow> rightOsc e \<noteq> Some i"
  shows "sourcesOk e"
  unfolding sourcesOk_def using assms by blast

lemma sourcesOkD:
  assumes "sourcesOk e"
  shows "noiseSource e = Some i \<Longrightarrow> runs (graph e) AudioBufferSourceNode i"
    and "runs (graph e) AudioBufferSourceNode i \<Longrightarrow> noiseSource e = Some i"
    and "leftOsc e = Some i \<Longrightarrow> runs (graph e) OscillatorNode i"
    and "rightOsc e = Some i \<Longrightarrow> runs (graph e) OscillatorNode i"
    and "runs (graph e) OscillatorNode i \<Longrightarrow> leftOsc e = Some i \<or> rightOsc e = Some i"
    and "leftOsc e = Some i \<Longrightarrow> rightOsc e \<noteq> Some i"
  using assms unfolding sourcesOk_def by blast+

lemma graph_stopNoise:
  "graph (stopNoise e) =
     (case noiseSource e of Some i \<Rightarrow> graph (tryStopDisconnect i e) | None \<Rightarrow> graph e)"
  by (simp add: stopNoise_def split: option.splits)

lemma runs_stopNoise:
  assumes "sourcesOk e"
  shows "runs (graph (stopNoise e)) K j = (runs (graph e) K j \<and> noiseSource e \<noteq> Some j)"
proof (cases "noiseSource e")
  case None
  then show ?thesis by (simp add: graph_stopNoise)
next
  case (Some i)
  with assms have "startedOf (graph e) i" by (simp add: sourcesOk_def runs_def)
  with Some show ?thesis by (auto simp: graph_stopNoise runs_tryStop)
qed

lemma kind_clash:
  "runs g AudioBufferSourceNode i \<Longrightarrow> runs g OscillatorNode i \<Longrightarrow> False"
  by (simp add: runs_def)


lemma kinds_stopNoise [simp]:
  "kindOf (graph (stopNoise e)) j = kindOf (graph e) j"
  "nextNode (graph (stopNoise e)) = nextNode (graph e)"
  by (simp_all add: stopNoise_def split: option.splits)

lemma kindFrame_stopNoise [simp]: "kindFrame e (stopNoise e)"
  by (simp add: kindFrame_def)

lemma storeOk_stopNoise [simp]: "storeOk (graph (stopNoise e)) = storeOk (graph e)"
  by (simp add: stopNoise_def split: option.splits)

lemma fields_stopBinaural [simp]:
  "ctx (stopBinaural e) = ctx e"
  "masterGain (stopBinaural e) = masterGain e"
  "noiseSource (stopBinaural e) = noiseSource e"
  "leftOsc (stopBinaural e) = None"
  "rightOsc (stopBinaural e) = None"
  "currentTime (stopBinaural e) = currentTime e"
  by (simp_all add: stopBinaural_def Let_def split: option.splits)

lemma sourcesOk_stopNoise:
  assumes "sourcesOk e"
  shows "sourcesOk (stopNoise e)"
proof -
  note d = sourcesOkD[OF assms]
  show ?thesis
  proof (rule sourcesOkI)
    fix i
    show "noiseSource (stopNoise e) = Some i \<Longrightarrow> runs (graph (stopNoise e)) AudioBufferSourceNode i"
      by simp
    show "runs (graph (stopNoise e)) AudioBufferSourceNode i \<Longrightarrow> noiseSource (stopNoise e) = Some i"
      using d(2)[of i] by (simp add: runs_stopNoise[OF assms])
    show "leftOsc (stopNoise e) = Some i \<Longrightarrow> runs (graph (stopNoise e)) OscillatorNode i"
      using d(3)[of i] d(1)[of i] kind_clash[of "graph e" i]
      by (auto simp: runs_stopNoise[OF assms])
    show "rightOsc (stopNoise e) = Some i \<Longrightarrow> runs (graph (stopNoise e)) OscillatorNode i"
      using d(4)[of i] d(1)[of i] kind_clash[of "graph e" i]
      by (auto simp: runs_stopNoise[OF assms])
    show "runs (graph (stopNoise e)) OscillatorNode i \<Longrightarrow>
          leftOsc (stopNoise e) = Some i \<or> rightOsc (stopNoise e) = Some i"
      using d(5)[of i] by (simp add: runs_stopNoise[OF assms])
    show "leftOsc (stopNoise e) = Some i \<Longrightarrow> rightOsc (stopNoise e) \<noteq> Some i"
      using d(6)[of i] by simp
  qed
qed

lemma graph_stopBinaural:
  "graph (stopBinaural e) =
     (let e1 = (case leftOsc e of Some l \<Rightarrow> tryStopDisconnect l e | None \<Rightarrow> e)
      in case rightOsc e of Some r \<Rightarrow> graph (tryStopDisconnect r e1) | None \<Rightarrow> graph e1)"
  by (simp add: stopBinaural_def Let_def split: option.splits)

lemma runs_stopBinaural:
  assumes "sourcesOk e"
  shows "runs (graph (stopBinaural e)) K j =
           (runs (graph e) K j \<and> leftOsc e \<noteq> Some j \<and> rightOsc e \<noteq> Some j)"
proof -
  have l: "\<And>i. leftOsc e = Some i \<Longrightarrow> startedOf (graph e) i"
    and r: "\<And>i. rightOsc e = Some i \<Longrightarrow> startedOf (graph e) i"
    using assms by (simp_all add: sourcesOk_def runs_def)
  have r': "\<And>i l. rightOsc e = Some i \<Longrightarrow> startedOf (graph (tryStopDisconnect l e)) i"
    using r by (simp add: tryStopDisconnect_def wrap_defs split: option.splits)
  show ?thesis
    by (cases "leftOsc e"; cases "rightOsc e")
       (auto simp: graph_stopBinaural runs_tryStop l r r')
qed

lemma sourcesOk_stopBinaural:
  assumes "sourcesOk e"
  shows "sourcesOk (stopBinaural e)"
proof -
  note d = sourcesOkD[OF assms]
  show ?thesis
  proof (rule sourcesOkI)
    fix i
    show "noiseSource (stopBinaural e) = Some i \<Longrightarrow>
          runs (graph (stopBinaural e)) AudioBufferSourceNode i"
      using d(1)[of i] d(3)[of i] d(4)[of i] kind_clash[of "graph e" i]
      by (auto simp: runs_stopBinaural[OF assms])
    show "runs (graph (stopBinaural e)) AudioBufferSourceNode i \<Longrightarrow>
          noiseSource (stopBinaural e) = Some i"
      using d(2)[of i] by (simp add: runs_stopBinaural[OF assms])
    show "leftOsc (stopBinaural e) = Some i \<Longrightarrow> runs (graph (stopBinaural e)) OscillatorNode i"
      by simp
    show "rightOsc (stopBinaural e) = Some i \<Longrightarrow> runs (graph (stopBinaural e)) OscillatorNode i"
      by simp
    show "runs (graph (stopBinaural e)) OscillatorNode i \<Longrightarrow>
          leftOsc (stopBinaural e) = Some i \<or> rightOsc (stopBinaural e) = Some i"
      using d(5)[of i] by (auto simp: runs_stopBinaural[OF assms])
    show "leftOsc (stopBinaural e) = Some i \<Longrightarrow> rightOsc (stopBinaural e) \<noteq> Some i"
      by simp
  qed
qed

lemma kinds_stopBinaural [simp]:
  "kindOf (graph (stopBinaural e)) j = kindOf (graph e) j"
  "nextNode (graph (stopBinaural e)) = nextNode (graph e)"
  by (simp_all add: stopBinaural_def Let_def split: option.splits)

lemma kindFrame_stopBinaural [simp]: "kindFrame e (stopBinaural e)"
  by (simp add: kindFrame_def)

lemma storeOk_stopBinaural [simp]: "storeOk (graph (stopBinaural e)) = storeOk (graph e)"
  by (simp add: stopBinaural_def Let_def split: option.splits)


lemma engineOk_stopNoise: "engineOk e \<Longrightarrow> engineOk (stopNoise e)"
  using fieldsOk_frame[of e "stopNoise e"] sourcesOk_stopNoise[of e]
  by (simp add: engineOk_def graphOk_storeOk)

lemma engineOk_stopBinaural: "engineOk e \<Longrightarrow> engineOk (stopBinaural e)"
  using fieldsOk_frame[of e "stopBinaural e"] sourcesOk_stopBinaural[of e]
  by (simp add: engineOk_def graphOk_storeOk)

lemma fieldsOk_masterGain: "fieldsOk e \<Longrightarrow> ctx e \<noteq> None \<Longrightarrow> \<exists>mg. masterGain e = Some mg"
  by (auto simp: fieldsOk_def)

lemma startNoise_OFF:
  "ctx e \<noteq> None \<Longrightarrow> startNoise OFF v e = stopNoise (e\<lparr>baseNoiseVolume := v\<rparr>)"
  by (auto simp: startNoise_def Let_def)

lemma sourcesOk_baseNoiseVolume [simp]:
  "sourcesOk (e\<lparr>baseNoiseVolume := v\<rparr>) = sourcesOk e"
  by (simp add: sourcesOk_def)

lemma base_stop [simp]:
  "baseNoiseVolume (tryStopDisconnect i e) = baseNoiseVolume e"
  "baseNoiseVolume (stopNoise e) = baseNoiseVolume e"
  "baseNoiseVolume (stopBinaural e) = baseNoiseVolume e"
  by (simp_all add: stopNoise_def stopBinaural_def tryStopDisconnect_def wrap_defs Let_def
      split: option.splits)

lemma fields_startNoise:
  assumes "ctx e \<noteq> None" and "fieldsOk e"
  shows "ctx (startNoise t v e) = ctx e"
    and "masterGain (startNoise t v e) = masterGain e"
    and "leftOsc (startNoise t v e) = leftOsc e"
    and "rightOsc (startNoise t v e) = rightOsc e"
    and "noiseSource (startNoise t v e) = (if t = OFF then None else Some (nextNode (graph e)))"
    and "baseNoiseVolume (startNoise t v e) = v"
    and "nextNode (graph (startNoise t v e)) =
           (if t = OFF then nextNode (graph e) else nextNode (graph e) + 3)"
proof -
  obtain c where c: "ctx e = Some c" using assms(1) by blast
  obtain mg where mg: "masterGain e = Some mg" using fieldsOk_masterGain[OF assms(2,1)] by blast
  have i: "initContext e = e" using assms(1) by simp
  show "ctx (startNoise t v e) = ctx e"
    and "masterGain (startNoise t v e) = masterGain e"
    and "leftOsc (startNoise t v e) = leftOsc e"
    and "rightOsc (startNoise t v e) = rightOsc e"
    and "noiseSource (startNoise t v e) = (if t = OFF then None else Some (nextNode (graph e)))"
    and "baseNoiseVolume (startNoise t v e) = v"
    and "nextNode (graph (startNoise t v e)) =
           (if t = OFF then nextNode (graph e) else nextNode (graph e) + 3)"
    unfolding startNoise_def i by (simp_all add: c mg wrap_defs Let_def)
qed

lemma kindFrame_startNoise:
  assumes "ctx e \<noteq> None" and "fieldsOk e"
  shows "kindFrame e (startNoise t v e)"
proof -
  obtain c where c: "ctx e = Some c" using assms(1) by blast
  obtain mg where mg: "masterGain e = Some mg" using fieldsOk_masterGain[OF assms(2,1)] by blast
  have i: "initContext e = e" using assms(1) by simp
  show ?thesis unfolding startNoise_def i kindFrame_def
    by (simp add: c mg wrap_defs Let_def)
qed

lemma runs_startNoise:
  assumes "ctx e \<noteq> None" and "fieldsOk e" and "storeOk (graph e)" and "t \<noteq> OFF"
  shows "runs (graph (startNoise t v e)) K j =
           (if j = nextNode (graph e) then K = AudioBufferSourceNode
            else runs (graph (stopNoise e)) K j)"
proof -
  obtain c where c: "ctx e = Some c" using assms(1) by blast
  obtain mg where mg: "masterGain e = Some mg" using fieldsOk_masterGain[OF assms(2,1)] by blast
  have i: "initContext e = e" using assms(1) by simp
  have g: "graph (stopNoise (e\<lparr>baseNoiseVolume := v\<rparr>)) = graph (stopNoise e)"
    by (simp add: stopNoise_def tryStopDisconnect_def wrap_defs split: option.splits)
  have s: "storeOk (graph (stopNoise e))" using assms(3) by simp
  show ?thesis unfolding startNoise_def i using assms(4) runs_lt[OF s, of K j]
    by (auto simp: c mg wrap_defs Let_def runs_start g)
qed

lemma sourcesOk_startNoise:
  assumes "ctx e \<noteq> None" and "fieldsOk e" and "storeOk (graph e)" and "sourcesOk e"
  shows "sourcesOk (startNoise t v e)"
proof (cases "t = OFF")
  case True
  then show ?thesis using assms by (simp add: startNoise_OFF sourcesOk_stopNoise)
next
  case False
  note f = fields_startNoise[OF assms(1,2), of t v]
  note r = runs_startNoise[OF assms(1-3) False, of v]
  note d = sourcesOkD[OF sourcesOk_stopNoise[OF assms(4)]]
  have lt: "\<And>K i. runs (graph (stopNoise e)) K i \<Longrightarrow> i < nextNode (graph e)"
    using runs_lt[of "graph (stopNoise e)"] assms(3) by simp
  show ?thesis
  proof (rule sourcesOkI)
    fix i
    show "noiseSource (startNoise t v e) = Some i \<Longrightarrow>
          runs (graph (startNoise t v e)) AudioBufferSourceNode i"
      using False by (simp add: f r)
    show "runs (graph (startNoise t v e)) AudioBufferSourceNode i \<Longrightarrow>
          noiseSource (startNoise t v e) = Some i"
      using False d(2)[of i] by (simp add: f r split: if_splits)
    show "leftOsc (startNoise t v e) = Some i \<Longrightarrow> runs (graph (startNoise t v e)) OscillatorNode i"
      using d(3)[of i] lt[of OscillatorNode i] by (auto simp: f r)
    show "rightOsc (startNoise t v e) = Some i \<Longrightarrow> runs (graph (startNoise t v e)) OscillatorNode i"
      using d(4)[of i] lt[of OscillatorNode i] by (auto simp: f r)
    show "runs (graph (startNoise t v e)) OscillatorNode i \<Longrightarrow>
          leftOsc (startNoise t v e) = Some i \<or> rightOsc (startNoise t v e) = Some i"
      using d(5)[of i] by (simp add: f r split: if_splits)
    show "leftOsc (startNoise t v e) = Some i \<Longrightarrow> rightOsc (startNoise t v e) \<noteq> Some i"
      using d(6)[of i] by (simp add: f)
  qed
qed

lemma storeOk_startNoise:
  assumes "ctx e \<noteq> None" and "fieldsOk e" and "storeOk (graph e)"
  shows "storeOk (graph (startNoise t v e))"
proof -
  obtain c where c: "ctx e = Some c" using assms(1) by blast
  obtain mg where mg: "masterGain e = Some mg" using fieldsOk_masterGain[OF assms(2,1)] by blast
  have i: "initContext e = e" using assms(1) by simp
  show ?thesis unfolding startNoise_def i using assms(3)
    by (simp add: c mg wrap_defs Let_def)
qed

lemma engineOk_startNoise_ctx:
  assumes "ctx e \<noteq> None" and "engineOk e"
  shows "engineOk (startNoise t v e)"
proof -
  have g: "graphOk (graph e)" and f: "fieldsOk e" and s: "sourcesOk e"
    using assms(2) by (simp_all add: engineOk_def)
  note st = graphOk_storeOk[OF g]
  have "fieldsOk (startNoise t v e)"
    using fieldsOk_frame[OF f st kindFrame_startNoise[OF assms(1) f]]
      fields_startNoise(1,2)[OF assms(1) f] by simp
  then show ?thesis using g sourcesOk_startNoise[OF assms(1) f st s]
    by (simp add: engineOk_def)
qed

lemma engineOk_startNoise: "engineOk e \<Longrightarrow> engineOk (startNoise t v e)"
  using engineOk_startNoise_ctx[of "initContext e" t v] engineOk_initContext[of e]
  by (simp add: startNoise_init)

lemma fields_startBinaural:
  assumes "ctx e \<noteq> None" and "fieldsOk e"
  shows "ctx (startBinaural c b v e) = ctx e"
    and "masterGain (startBinaural c b v e) = masterGain e"
    and "noiseSource (startBinaural c b v e) = noiseSource e"
    and "leftOsc (startBinaural c b v e) = Some (nextNode (graph e) + 2)"
    and "rightOsc (startBinaural c b v e) = Some (nextNode (graph e) + 4)"
    and "merger (startBinaural c b v e) = Some (nextNode (graph e))"
    and "binauralGain (startBinaural c b v e) = Some (nextNode (graph e) + 1)"
    and "nextNode (graph (startBinaural c b v e)) = nextNode (graph e) + 6"
proof -
  obtain x where x: "ctx e = Some x" using assms(1) by blast
  obtain mg where mg: "masterGain e = Some mg" using fieldsOk_masterGain[OF assms(2,1)] by blast
  have i: "initContext e = e" using assms(1) by simp
  show "ctx (startBinaural c b v e) = ctx e"
    and "masterGain (startBinaural c b v e) = masterGain e"
    and "noiseSource (startBinaural c b v e) = noiseSource e"
    and "leftOsc (startBinaural c b v e) = Some (nextNode (graph e) + 2)"
    and "rightOsc (startBinaural c b v e) = Some (nextNode (graph e) + 4)"
    and "merger (startBinaural c b v e) = Some (nextNode (graph e))"
    and "binauralGain (startBinaural c b v e) = Some (nextNode (graph e) + 1)"
    and "nextNode (graph (startBinaural c b v e)) = nextNode (graph e) + 6"
    unfolding startBinaural_def i by (simp_all add: x mg wrap_defs Let_def)
qed

lemma kindFrame_startBinaural:
  assumes "ctx e \<noteq> None" and "fieldsOk e"
  shows "kindFrame e (startBinaural c b v e)"
proof -
  obtain x where x: "ctx e = Some x" using assms(1) by blast
  obtain mg where mg: "masterGain e = Some mg" using fieldsOk_masterGain[OF assms(2,1)] by blast
  have i: "initContext e = e" using assms(1) by simp
  show ?thesis unfolding startBinaural_def i kindFrame_def
    by (simp add: x mg wrap_defs Let_def)
qed

lemma runs_startBinaural:
  assumes "ctx e \<noteq> None" and "fieldsOk e" and "storeOk (graph e)"
  shows "runs (graph (startBinaural c b v e)) K j =
           (if j = nextNode (graph e) + 2 \<or> j = nextNode (graph e) + 4 then K = OscillatorNode
            else runs (graph (stopBinaural e)) K j)"
proof -
  obtain x where x: "ctx e = Some x" using assms(1) by blast
  obtain mg where mg: "masterGain e = Some mg" using fieldsOk_masterGain[OF assms(2,1)] by blast
  have i: "initContext e = e" using assms(1) by simp
  have s: "storeOk (graph (stopBinaural e))" using assms(3) by simp
  show ?thesis unfolding startBinaural_def i using runs_lt[OF s, of K j]
    by (auto simp: x mg wrap_defs Let_def runs_start)
qed

lemma sourcesOk_startBinaural:
  assumes "ctx e \<noteq> None" and "fieldsOk e" and "storeOk (graph e)" and "sourcesOk e"
  shows "sourcesOk (startBinaural c b v e)"
proof -
  note f = fields_startBinaural[OF assms(1,2), of c b v]
  note r = runs_startBinaural[OF assms(1-3), of c b v]
  note d = sourcesOkD[OF sourcesOk_stopBinaural[OF assms(4)]]
  have lt: "\<And>K i. runs (graph (stopBinaural e)) K i \<Longrightarrow> i < nextNode (graph e)"
    using runs_lt[of "graph (stopBinaural e)"] assms(3) by simp
  show ?thesis
  proof (rule sourcesOkI)
    fix i
    show "noiseSource (startBinaural c b v e) = Some i \<Longrightarrow>
          runs (graph (startBinaural c b v e)) AudioBufferSourceNode i"
      using d(1)[of i] lt[of AudioBufferSourceNode i] by (auto simp: f r)
    show "runs (graph (startBinaural c b v e)) AudioBufferSourceNode i \<Longrightarrow>
          noiseSource (startBinaural c b v e) = Some i"
      using d(2)[of i] by (simp add: f r split: if_splits)
    show "leftOsc (startBinaural c b v e) = Some i \<Longrightarrow>
          runs (graph (startBinaural c b v e)) OscillatorNode i"
      by (auto simp: f r)
    show "rightOsc (startBinaural c b v e) = Some i \<Longrightarrow>
          runs (graph (startBinaural c b v e)) OscillatorNode i"
      by (auto simp: f r)
    show "runs (graph (startBinaural c b v e)) OscillatorNode i \<Longrightarrow>
          leftOsc (startBinaural c b v e) = Some i \<or> rightOsc (startBinaural c b v e) = Some i"
      using d(5)[of i] by (auto simp: f r split: if_splits)
    show "leftOsc (startBinaural c b v e) = Some i \<Longrightarrow> rightOsc (startBinaural c b v e) \<noteq> Some i"
      by (auto simp: f)
  qed
qed

lemma engineOk_startBinaural_ctx:
  assumes "ctx e \<noteq> None" and "engineOk e"
  shows "engineOk (startBinaural c b v e)"
proof -
  have g: "graphOk (graph e)" and f: "fieldsOk e" and s: "sourcesOk e"
    using assms(2) by (simp_all add: engineOk_def)
  note st = graphOk_storeOk[OF g]
  have "fieldsOk (startBinaural c b v e)"
    using fieldsOk_frame[OF f st kindFrame_startBinaural[OF assms(1) f]]
      fields_startBinaural(1,2)[OF assms(1) f] by simp
  then show ?thesis using g sourcesOk_startBinaural[OF assms(1) f st s]
    by (simp add: engineOk_def)
qed

lemma engineOk_startBinaural: "engineOk e \<Longrightarrow> engineOk (startBinaural c b v e)"
  using engineOk_startBinaural_ctx[of "initContext e" c b v] engineOk_initContext[of e]
  by (simp add: startBinaural_init)

lemma engineOk_calm_simple:
  "engineOk e \<Longrightarrow> calm e e' \<Longrightarrow> ctx e' = ctx e \<Longrightarrow> masterGain e' = masterGain e \<Longrightarrow>
   graph e' = graph e \<Longrightarrow> engineOk e'"
  by (rule engineOk_calm) (simp_all add: engineOk_def)

lemma engineOk_playComposition:
  assumes "engineOk e"
  shows "engineOk (playComposition ns e)"
proof -
  let ?e = "initContext e"
  have c: "ctx ?e \<noteq> None" by simp
  have i: "engineOk ?e" using assms by (rule engineOk_initContext)
  have "engineOk (playComposition ns ?e)"
  proof (rule engineOk_calm[OF i calm_playComposition[OF c]])
    show "ctx (playComposition ns ?e) = ctx ?e" by (rule fields_playComposition(1)[OF c])
    show "masterGain (playComposition ns ?e) = masterGain ?e"
      by (rule fields_playComposition(2)[OF c])
    show "graphOk (graph (playComposition ns ?e))" using i by (simp add: engineOk_def)
  qed
  then show ?thesis by (simp add: playComposition_init)
qed

lemma engineOk_wire:
  assumes "engineOk e"
  shows "engineOk (enableAdaptiveNoise_wire e)"
proof -
  let ?e = "initContext e"
  have c: "ctx ?e \<noteq> None" by simp
  have i: "engineOk ?e" using assms by (rule engineOk_initContext)
  have "engineOk (enableAdaptiveNoise_wire ?e)"
  proof (rule engineOk_calm[OF i calm_wire[OF c]])
    show "ctx (enableAdaptiveNoise_wire ?e) = ctx ?e" by (rule fields_wire(1)[OF c])
    show "masterGain (enableAdaptiveNoise_wire ?e) = masterGain ?e" by (rule fields_wire(2)[OF c])
    show "graphOk (graph (enableAdaptiveNoise_wire ?e))" using i by (simp add: engineOk_def)
  qed
  then show ?thesis by (simp add: wire_init)
qed

lemma engineOk_updateNoiseGain:
  assumes "engineOk e"
  shows "engineOk (updateNoiseGain v e)"
proof -
  have g: "graphOk (graph e)" using assms by (simp add: engineOk_def)
  show ?thesis by (rule engineOk_calm[OF assms calm_setters(1)]) (simp_all add: g)
qed

lemma engineOk_field_updates [simp]:
  "engineOk (e\<lparr>baseNoiseVolume := v\<rparr>) = engineOk e"
  "engineOk (e\<lparr>isAdaptive := b\<rparr>) = engineOk e"
  "engineOk (e\<lparr>adaptiveInterval := b\<rparr>) = engineOk e"
  "engineOk (e\<lparr>micStream := ms\<rparr>) = engineOk e"
  "engineOk (e\<lparr>micSource := ms\<rparr>) = engineOk e"
  "engineOk (e\<lparr>releasedStreams := rs\<rparr>) = engineOk e"
  "engineOk (e\<lparr>currentTime := t\<rparr>) = engineOk e"
  by (simp_all add: engineOk_def fieldsOk_def sourcesOk_def)

lemma engineOk_enableAdaptiveNoise: "engineOk e \<Longrightarrow> engineOk (enableAdaptiveNoise b e)"
  by (simp add: enableAdaptiveNoise_def Let_def stopAdaptiveLoop_def engineOk_wire
      engineOk_updateNoiseGain)

lemma engineOk_setters:
  assumes "engineOk e"
  shows "engineOk (setMusicVolume v e)"
    and "engineOk (setReverbMix v e)"
    and "engineOk (setDelayMix v e)"
    and "engineOk (setBinauralVolume v e)"
    and "engineOk (stopAll_restore e)"
    and "engineOk (adaptiveTick d e)"
    and "engineOk (setNoiseVolume v e)"
proof -
  have g: "graphOk (graph e)" using assms by (simp add: engineOk_def)
  show "engineOk (setMusicVolume v e)"
    by (rule engineOk_calm[OF assms calm_setters(2)]) (simp_all add: g)
  show "engineOk (setReverbMix v e)"
    by (rule engineOk_calm[OF assms calm_setters(3)]) (simp_all add: g)
  show "engineOk (setDelayMix v e)"
    by (rule engineOk_calm[OF assms calm_setters(4)]) (simp_all add: g)
  show "engineOk (setBinauralVolume v e)"
    by (rule engineOk_calm[OF assms calm_setters(5)]) (simp_all add: g)
  show "engineOk (stopAll_restore e)"
    by (rule engineOk_calm[OF assms calm_setters(6)]) (simp_all add: g)
  show "engineOk (adaptiveTick d e)"
    by (rule engineOk_calm[OF assms calm_setters(7)]) (simp_all add: g)
  show "engineOk (setNoiseVolume v e)"
    by (rule engineOk_calm[OF assms calm_setNoiseVolume]) (simp_all add: g)
qed

lemma engineOk_schedule:
  assumes "engineOk e"
  shows "engineOk (schedule i evs e)"
proof -
  have g: "graphOk (graph (schedule i evs e))"
    using assms by (simp add: engineOk_def schedule_def updNode_def)
  show ?thesis by (rule engineOk_calm[OF assms calm_schedule]) (simp_all add: g)
qed

lemma engineOk_stopAll: "engineOk e \<Longrightarrow> engineOk (stopAll e)"
  by (simp add: stopAll_def Let_def stopAdaptiveLoop_def engineOk_schedule engineOk_stopNoise
      engineOk_stopBinaural split: option.splits)

lemma engineOk_exec: "engineOk e \<Longrightarrow> engineOk (exec ev e)"
  by (cases ev)
     (simp_all add: resume_def enableAdaptiveNoise_granted_def enableAdaptiveNoise_failed_def
       engineOk_initContext engineOk_enableAdaptiveNoise engineOk_wire engineOk_setters
       engineOk_startNoise engineOk_stopNoise engineOk_playComposition
       engineOk_startBinaural engineOk_stopBinaural engineOk_stopAll)

lemma engineOk_newEngine: "engineOk newEngine"
  by (simp add: engineOk_def graphOk_newEngine)
     (simp add: newEngine_def fieldsOk_def sourcesOk_def runs_def startedOf_def)

lemma engineOk_run: "engineOk (run evs)"
proof (induction evs rule: rev_induct)
  case Nil
  show ?case by (simp add: run_def engineOk_newEngine)
next
  case (snoc ev evs)
  then show ?case by (simp add: run_snoc engineOk_exec)
qed

lemma engineOk_facts:
  "graphOk (graph (run evs))" "fieldsOk (run evs)" "sourcesOk (run evs)"
  "storeOk (graph (run evs))"
  using engineOk_run[of evs] by (simp_all add: engineOk_def graphOk_def)

subsection \<open>Stopping and replacing sources\<close>

lemma outgoing_prims [simp]:
  "outgoing (allocNode k g) i = outgoing g i"
  "outgoing (modifyNode j f g) i = outgoing g i"
  "outgoing (addConnection (s, d, outp, inp) g) i =
     (if s = i then insert (s, d, outp, inp) (outgoing g i) else outgoing g i)"
  "outgoing (removeOutgoing s g) i = (if s = i then {} else outgoing g i)"
  by (auto simp: outgoing_def)

lemma stopped_tryStop:
  "startedOf (graph e) i \<Longrightarrow>
   stoppedOf (graph (tryStopDisconnect i e)) i \<and> outgoing (graph (tryStopDisconnect i e)) i = {}"
  using started_kind[of "graph e" i]
  by (simp add: tryStop_started wrap_defs)

lemma stopped_mono_tryStop:
  "stoppedOf (graph e) j \<Longrightarrow> stoppedOf (graph (tryStopDisconnect i e)) j"
  by (cases "startedOf (graph e) i")
     (auto simp: tryStop_started tryStop_not_started wrap_defs dest: started_kind)

lemma outgoing_mono_tryStop:
  "outgoing (graph e) j = {} \<Longrightarrow> outgoing (graph (tryStopDisconnect i e)) j = {}"
  by (cases "startedOf (graph e) i")
     (auto simp: tryStop_started tryStop_not_started wrap_defs)

lemma stopNoise_effect:
  assumes "sourcesOk e" and "noiseSource e = Some i"
  shows "stoppedOf (graph (stopNoise e)) i \<and> outgoing (graph (stopNoise e)) i = {}"
proof -
  have "startedOf (graph e) i" using sourcesOkD(1)[OF assms] by (simp add: runs_def)
  then show ?thesis using assms(2) stopped_tryStop[of e i] by (simp add: graph_stopNoise)
qed

lemma stopBinaural_effect:
  assumes "sourcesOk e" and "leftOsc e = Some i \<or> rightOsc e = Some i"
  shows "stoppedOf (graph (stopBinaural e)) i \<and> outgoing (graph (stopBinaural e)) i = {}"
proof -
  have l: "\<And>l. leftOsc e = Some l \<Longrightarrow> startedOf (graph e) l"
    using sourcesOkD(3)[OF assms(1)] by (simp add: runs_def)
  have r: "\<And>r. rightOsc e = Some r \<Longrightarrow> startedOf (graph e) r"
    using sourcesOkD(4)[OF assms(1)] by (simp add: runs_def)
  have r': "\<And>r l. rightOsc e = Some r \<Longrightarrow> startedOf (graph (tryStopDisconnect l e)) r"
    using r by (simp add: tryStopDisconnect_def wrap_defs split: option.splits)
  show ?thesis
  proof (cases "leftOsc e")
    case None
    then obtain r0 where r0: "rightOsc e = Some r0" "i = r0" using assms(2) by auto
    then show ?thesis using None stopped_tryStop[OF r[OF r0(1)]]
      by (simp add: graph_stopBinaural)
  next
    case (Some l0)
    show ?thesis
    proof (cases "rightOsc e")
      case None
      then have "i = l0" using assms(2) Some by simp
      then show ?thesis using None Some stopped_tryStop[OF l[OF Some]]
        by (simp add: graph_stopBinaural)
    next
      case (Some r0)
      note R = Some
      have a: "stoppedOf (graph (tryStopDisconnect l0 e)) l0 \<and>
               outgoing (graph (tryStopDisconnect l0 e)) l0 = {}"
        by (rule stopped_tryStop[OF l[OF \<open>leftOsc e = Some l0\<close>]])
      have b: "stoppedOf (graph (tryStopDisconnect r0 (tryStopDisconnect l0 e))) r0 \<and>
               outgoing (graph (tryStopDisconnect r0 (tryStopDisconnect l0 e))) r0 = {}"
        by (rule stopped_tryStop[OF r'[OF R]])
      have g: "graph (stopBinaural e) = graph (tryStopDisconnect r0 (tryStopDisconnect l0 e))"
        using R \<open>leftOsc e = Some l0\<close> by (simp add: graph_stopBinaural)
      from assms(2) have "i = l0 \<or> i = r0" using R \<open>leftOsc e = Some l0\<close> by auto
      then show ?thesis using a b stopped_mono_tryStop outgoing_mono_tryStop by (auto simp: g)
    qed
  qed
qed


lemma graph_stopNoise_base:
  "graph (stopNoise (e\<lparr>baseNoiseVolume := v\<rparr>)) = graph (stopNoise e)"
  by (simp add: stopNoise_def tryStopDisconnect_def wrap_defs split: option.splits)

lemma old_startNoise:
  assumes "ctx e \<noteq> None" and "fieldsOk e" and "i < nextNode (graph e)"
  shows "stoppedOf (graph (startNoise t v e)) i = stoppedOf (graph (stopNoise e)) i"
    and "outgoing (graph (startNoise t v e)) i = outgoing (graph (stopNoise e)) i"
proof -
  obtain c where c: "ctx e = Some c" using assms(1) by blast
  obtain mg where mg: "masterGain e = Some mg" using fieldsOk_masterGain[OF assms(2,1)] by blast
  have i: "initContext e = e" using assms(1) by simp
  show "stoppedOf (graph (startNoise t v e)) i = stoppedOf (graph (stopNoise e)) i"
    and "outgoing (graph (startNoise t v e)) i = outgoing (graph (stopNoise e)) i"
    unfolding startNoise_def i using assms(3)
    by (simp_all add: c mg wrap_defs Let_def graph_stopNoise_base)
qed

lemma old_startBinaural:
  assumes "ctx e \<noteq> None" and "fieldsOk e" and "i < nextNode (graph e)"
  shows "stoppedOf (graph (startBinaural c b v e)) i = stoppedOf (graph (stopBinaural e)) i"
    and "outgoing (graph (startBinaural c b v e)) i = outgoing (graph (stopBinaural e)) i"
proof -
  obtain x where x: "ctx e = Some x" using assms(1) by blast
  obtain mg where mg: "masterGain e = Some mg" using fieldsOk_masterGain[OF assms(2,1)] by blast
  have i: "initContext e = e" using assms(1) by simp
  show "stoppedOf (graph (startBinaural c b v e)) i = stoppedOf (graph (stopBinaural e)) i"
    and "outgoing (graph (startBinaural c b v e)) i = outgoing (graph (stopBinaural e)) i"
    unfolding startBinaural_def i using assms(3)
    by (simp_all add: x mg wrap_defs Let_def)
qed

lemma filter_at_most_one:
  assumes "\<And>i j. P i \<Longrightarrow> P j \<Longrightarrow> i = j" and "distinct xs"
  shows "length (filter P xs) \<le> 1"
  using assms(2)
proof (induction xs)
  case Nil
  show ?case by simp
next
  case (Cons x xs)
  show ?case
  proof (cases "P x")
    case True
    have "filter P xs = []"
    proof (rule ccontr)
      assume "filter P xs \<noteq> []"
      then obtain y where y: "y \<in> set xs" "P y"
        by (metis filter_False)
      then have "y = x" using assms(1) True by blast
      then show False using y(1) Cons.prems by simp
    qed
    then show ?thesis using True by simp
  next
    case False
    then show ?thesis using Cons by simp
  qed
qed

lemma set_active:
  assumes "storeOk (graph e)"
  shows "set (filter (runs (graph e) K) [0 ..< nextNode (graph e)]) = {i. runs (graph e) K i}"
  using runs_lt[OF assms] by auto

lemma noise_sources_run:
  "set (activeNoiseSources (run evs)) = set_option (noiseSource (run evs))"
  "length (activeNoiseSources (run evs)) \<le> 1"
proof -
  note d = sourcesOkD[OF engineOk_facts(3)[of evs]]
  have eq: "\<And>i. runs (graph (run evs)) AudioBufferSourceNode i = (noiseSource (run evs) = Some i)"
    using d(1,2) by blast
  show "set (activeNoiseSources (run evs)) = set_option (noiseSource (run evs))"
    unfolding activeNoiseSources_def set_active[OF engineOk_facts(4)] eq
    by (cases "noiseSource (run evs)") auto
  have "\<And>i j. runs (graph (run evs)) AudioBufferSourceNode i \<Longrightarrow>
              runs (graph (run evs)) AudioBufferSourceNode j \<Longrightarrow> i = j"
    using d(2) by (metis option.inject)
  then show "length (activeNoiseSources (run evs)) \<le> 1"
    unfolding activeNoiseSources_def by (intro filter_at_most_one) simp_all
qed

lemma oscillators_run:
  "set (activeOscillators (run evs)) =
     set_option (leftOsc (run evs)) \<union> set_option (rightOsc (run evs))"
  "length (activeOscillators (run evs)) \<le> 2"
proof -
  note d = sourcesOkD[OF engineOk_facts(3)[of evs]]
  have eq: "\<And>i. runs (graph (run evs)) OscillatorNode i =
                  (leftOsc (run evs) = Some i \<or> rightOsc (run evs) = Some i)"
    using d(3,4,5) by blast
  show s: "set (activeOscillators (run evs)) =
     set_option (leftOsc (run evs)) \<union> set_option (rightOsc (run evs))"
    unfolding activeOscillators_def set_active[OF engineOk_facts(4)] eq
    by (cases "leftOsc (run evs)"; cases "rightOsc (run evs)") auto
  have "distinct (activeOscillators (run evs))" by (simp add: activeOscillators_def)
  then have "length (activeOscillators (run evs)) = card (set (activeOscillators (run evs)))"
    by (simp add: distinct_card)
  also have "\<dots> \<le> card (set_option (leftOsc (run evs))) + card (set_option (rightOsc (run evs)))"
    unfolding s by (rule card_Un_le)
  also have "\<dots> \<le> 1 + 1"
    by (intro add_mono; cases "leftOsc (run evs)"; cases "rightOsc (run evs)") simp_all
  finally show "length (activeOscillators (run evs)) \<le> 2" by simp
qed


lemma run_start_init:
  "engineOk (initContext (run evs))" "ctx (initContext (run evs)) \<noteq> None"
  "fieldsOk (initContext (run evs))" "sourcesOk (initContext (run evs))"
  "storeOk (graph (initContext (run evs)))"
  using engineOk_initContext[OF engineOk_run[of evs]]
  by (simp_all add: engineOk_def graphOk_def)

lemma startNoise_replaces:
  assumes "noiseSource (run evs) = Some i"
  shows "stoppedOf (graph (startNoise t v (run evs))) i \<and>
         outgoing (graph (startNoise t v (run evs))) i = {} \<and>
         noiseSource (startNoise t v (run evs)) \<noteq> Some i"
proof -
  let ?e = "initContext (run evs)"
  have n: "noiseSource ?e = Some i" using assms by simp
  have lt: "i < nextNode (graph ?e)"
    using runs_lt[OF run_start_init(5) sourcesOkD(1)[OF run_start_init(4) n]] .
  have "stoppedOf (graph (startNoise t v ?e)) i \<and> outgoing (graph (startNoise t v ?e)) i = {}"
    using old_startNoise[OF run_start_init(2,3) lt, of t v]
      stopNoise_effect[OF run_start_init(4) n] by simp
  moreover have "noiseSource (startNoise t v ?e) \<noteq> Some i"
    using fields_startNoise(5)[OF run_start_init(2,3), of t v] lt by (simp split: if_splits)
  ultimately show ?thesis by (simp add: startNoise_init)
qed

lemma startBinaural_replaces:
  assumes "leftOsc (run evs) = Some i \<or> rightOsc (run evs) = Some i"
  shows "stoppedOf (graph (startBinaural c b v (run evs))) i \<and>
         outgoing (graph (startBinaural c b v (run evs))) i = {} \<and>
         leftOsc (startBinaural c b v (run evs)) \<noteq> Some i \<and>
         rightOsc (startBinaural c b v (run evs)) \<noteq> Some i"
proof -
  let ?e = "initContext (run evs)"
  have n: "leftOsc ?e = Some i \<or> rightOsc ?e = Some i" using assms by simp
  have "runs (graph ?e) OscillatorNode i"
    using n sourcesOkD(3,4)[OF run_start_init(4)] by blast
  then have lt: "i < nextNode (graph ?e)" by (rule runs_lt[OF run_start_init(5)])
  have "stoppedOf (graph (startBinaural c b v ?e)) i \<and>
        outgoing (graph (startBinaural c b v ?e)) i = {}"
    using old_startBinaural[OF run_start_init(2,3) lt, of c b v]
      stopBinaural_effect[OF run_start_init(4) n] by simp
  moreover have "leftOsc (startBinaural c b v ?e) \<noteq> Some i \<and>
                 rightOsc (startBinaural c b v ?e) \<noteq> Some i"
    using fields_startBinaural(4,5)[OF run_start_init(2,3), of c b v] lt by simp
  ultimately show ?thesis by (simp add: startBinaural_init)
qed

lemma startNoise_twice:
  assumes "t2 \<noteq> OFF"
  shows "length (activeNoiseSources (run (evs @ [StartNoise t1 v1, StartNoise t2 v2]))) = 1"
proof -
  let ?r = "run (evs @ [StartNoise t1 v1])"
  let ?e = "initContext ?r"
  let ?f = "run (evs @ [StartNoise t1 v1, StartNoise t2 v2])"
  have "?f = exec (StartNoise t2 v2) ?r"
    by (simp add: run_def)
  then have r: "?f = startNoise t2 v2 ?e"
    by (simp only: exec.simps startNoise_init)
  have "noiseSource (startNoise t2 v2 ?e) = Some (nextNode (graph ?e))"
    using fields_startNoise(5)[OF run_start_init(2,3)[of "evs @ [StartNoise t1 v1]"], of t2 v2] assms
    by simp
  then have n: "noiseSource ?f = Some (nextNode (graph ?e))" by (simp only: r)
  have "set (activeNoiseSources ?f) = {nextNode (graph ?e)}"
    unfolding noise_sources_run(1) n by simp
  moreover have "distinct (activeNoiseSources ?f)"
    by (simp add: activeNoiseSources_def)
  ultimately have "length (activeNoiseSources ?f) = card {nextNode (graph ?e)}"
    by (simp add: distinct_card[symmetric])
  then show ?thesis by simp
qed

subsection \<open>The microphone is never routed to an output\<close>

text \<open>
  C8. In every state the engine can reach (by calls of its methods, outcomes of the
  microphone request and firings of its timers, in any order), whatever a microphone
  source node feeds, directly or through further connections, is an analyser node; in
  particular it is neither the master gain nor the destination of the context.
\<close>

theorem mic_never_audible:
  assumes "kindOf (graph (run evs)) s = Some MediaStreamAudioSourceNode"
    and "flows (graph (run evs)) s d"
  shows "kindOf (graph (run evs)) d = Some AnalyserNode \<and>
         masterGain (run evs) \<noteq> Some d \<and> ctx (run evs) \<noteq> Some d"
proof -
  have ok: "engineOk (run evs)" by (rule engineOk_run)
  then have m: "micIsolated (graph (run evs))" by (simp add: engineOk_def graphOk_def)
  have k: "kindOf (graph (run evs)) d = Some AnalyserNode"
    by (rule flows_from_mic[OF m assms(2,1)])
  moreover have "fieldsOk (run evs)" using ok by (simp add: engineOk_def)
  ultimately show ?thesis by (auto simp: fieldsOk_def)
qed

lemma run_MicGranted:
  "kindOf (graph (run [MicGranted 0])) 7 = Some MediaStreamAudioSourceNode"
  "(7, 8, 0, 0) \<in> connections (graph (run [MicGranted 0]))"
  "masterGain (run [MicGranted 0]) = Some 1"
  "ctx (run [MicGranted 0]) = Some 0"
  by (simp_all add: run_def enableAdaptiveNoise_granted_def
      enableAdaptiveNoise_wire_def startAdaptiveLoop_def initContext_def newEngine_def
      wrap_defs Let_def)

theorem mic_never_audible_witness:
  "kindOf (graph (run [MicGranted 0])) 7 = Some MediaStreamAudioSourceNode \<and>
   flows (graph (run [MicGranted 0])) 7 8 \<and>
   kindOf (graph (run [MicGranted 0])) 8 = Some AnalyserNode \<and>
   masterGain (run [MicGranted 0]) = Some 1 \<and> ctx (run [MicGranted 0]) = Some 0"
proof -
  have f: "flows (graph (run [MicGranted 0])) 7 8"
    by (rule flows_direct[OF run_MicGranted(2)])
  show ?thesis
    using mic_never_audible[OF run_MicGranted(1) f] f run_MicGranted by simp
qed

subsection \<open>Adaptive loudness\<close>

lemma unat_byte: "unat (w :: 8 word) \<le> 255"
proof -
  have "unat w < 2 ^ LENGTH(8)" by (rule unsigned_less)
  then show ?thesis by simp
qed

lemma sum_bytes: "sum_list (map unat (d :: 8 word list)) \<le> 255 * length d"
proof (induction d)
  case Nil
  show ?case by simp
next
  case (Cons w d)
  then show ?case using unat_byte[of w] by simp
qed

lemma average_range:
  assumes "dataArray \<noteq> []"
  shows "0 \<le> average dataArray \<and> average dataArray \<le> 255"
proof -
  have l: "0 < real (length dataArray)" using assms by simp
  have "real (sum_list (map unat dataArray)) \<le> real (255 * length dataArray)"
    using sum_bytes[of dataArray] by (simp only: of_nat_le_iff)
  then have "real (sum_list (map unat dataArray)) \<le> 255 * real (length dataArray)" by simp
  then have "average dataArray \<le> 255"
    using l by (simp add: average_def pos_divide_le_eq)
  moreover have "0 \<le> average dataArray" by (simp add: average_def)
  ultimately show ?thesis by simp
qed


subsection \<open>The binaural pair\<close>

lemmas graph_defs = allocNode_def modifyNode_def addConnection_def removeOutgoing_def

lemma paramOf_prims [simp]:
  "paramOf (allocNode k g) i = (if i = nextNode g then Some (paramValue (newNode k)) else paramOf g i)"
  "paramOf (addConnection cn g) i = paramOf g i"
  "paramOf (removeOutgoing s g) i = paramOf g i"
  "i \<noteq> j \<Longrightarrow> paramOf (modifyNode j f g) i = paramOf g i"
  "(\<And>n. paramValue (f n) = paramValue n) \<Longrightarrow> paramOf (modifyNode j f g) i = paramOf g i"
  by (simp_all add: paramOf_def graph_defs) (cases "nodes g j"; simp)

lemma paramOf_set:
  "i = j \<Longrightarrow> kindOf g j \<noteq> None \<Longrightarrow>
   paramOf (modifyNode j (\<lambda>n. n\<lparr>nodeType := ty, paramValue := v\<rparr>) g) i = Some v"
  by (cases "nodes g j") (simp_all add: paramOf_def kindOf_def graph_defs)

lemma kinds_startBinaural:
  assumes "ctx e \<noteq> None" and "fieldsOk e"
  shows "kindOf (graph (startBinaural c b v e)) (nextNode (graph e)) = Some ChannelMergerNode"
    and "kindOf (graph (startBinaural c b v e)) (nextNode (graph e) + 2) = Some OscillatorNode"
    and "kindOf (graph (startBinaural c b v e)) (nextNode (graph e) + 4) = Some OscillatorNode"
proof -
  obtain x where x: "ctx e = Some x" using assms(1) by blast
  obtain mg where mg: "masterGain e = Some mg" using fieldsOk_masterGain[OF assms(2,1)] by blast
  have i: "initContext e = e" using assms(1) by simp
  show "kindOf (graph (startBinaural c b v e)) (nextNode (graph e)) = Some ChannelMergerNode"
    and "kindOf (graph (startBinaural c b v e)) (nextNode (graph e) + 2) = Some OscillatorNode"
    and "kindOf (graph (startBinaural c b v e)) (nextNode (graph e) + 4) = Some OscillatorNode"
    unfolding startBinaural_def i by (simp_all add: x mg wrap_defs Let_def)
qed

lemma wiring_startBinaural:
  assumes "ctx e \<noteq> None" and "fieldsOk e"
  shows "(nextNode (graph e) + 2, nextNode (graph e) + 3, 0, 0)
           \<in> connections (graph (startBinaural c b v e))"
    and "(nextNode (graph e) + 3, nextNode (graph e), 0, 0)
           \<in> connections (graph (startBinaural c b v e))"
    and "(nextNode (graph e) + 4, nextNode (graph e) + 5, 0, 0)
           \<in> connections (graph (startBinaural c b v e))"
    and "(nextNode (graph e) + 5, nextNode (graph e), 0, 1)
           \<in> connections (graph (startBinaural c b v e))"
proof -
  obtain x where x: "ctx e = Some x" using assms(1) by blast
  obtain mg where mg: "masterGain e = Some mg" using fieldsOk_masterGain[OF assms(2,1)] by blast
  have i: "initContext e = e" using assms(1) by simp
  show "(nextNode (graph e) + 2, nextNode (graph e) + 3, 0, 0)
           \<in> connections (graph (startBinaural c b v e))"
    and "(nextNode (graph e) + 3, nextNode (graph e), 0, 0)
           \<in> connections (graph (startBinaural c b v e))"
    and "(nextNode (graph e) + 4, nextNode (graph e) + 5, 0, 0)
           \<in> connections (graph (startBinaural c b v e))"
    and "(nextNode (graph e) + 5, nextNode (graph e), 0, 1)
           \<in> connections (graph (startBinaural c b v e))"
    unfolding startBinaural_def i by (simp_all add: x mg wrap_defs Let_def)
qed

lemma params_startBinaural:
  assumes "ctx e \<noteq> None" and "fieldsOk e"
  shows "paramOf (graph (startBinaural c b v e)) (nextNode (graph e) + 2) = Some c"
    and "paramOf (graph (startBinaural c b v e)) (nextNode (graph e) + 4) = Some (c + b)"
proof -
  obtain x where x: "ctx e = Some x" using assms(1) by blast
  obtain mg where mg: "masterGain e = Some mg" using fieldsOk_masterGain[OF assms(2,1)] by blast
  have i: "initContext e = e" using assms(1) by simp
  show "paramOf (graph (startBinaural c b v e)) (nextNode (graph e) + 2) = Some c"
    and "paramOf (graph (startBinaural c b v e)) (nextNode (graph e) + 4) = Some (c + b)"
    unfolding startBinaural_def i by (simp_all add: x mg wrap_defs Let_def paramOf_set)
qed

text \<open>
  C2. In every state the engine can reach, \<open>startBinaural(carrier, beat, volume)\<close>
  leaves a left and a right oscillator such that the left one has frequency
  \<open>carrier\<close> and feeds, through a gain node, input 0 (the left channel) of the merger,
  and the right one has frequency \<open>carrier + beat\<close> and feeds, through a gain node,
  input 1 (the right channel); they are the only oscillators that run open-ended.
  (Numbers are real numbers here, so this holds for every carrier and beat, in
  particular for \<open>carrier > 0\<close> and \<open>beat \<ge> 0\<close>.)
\<close>

theorem startBinaural_frequencies:
  "\<exists>l r gl gr m.
     leftOsc (startBinaural c b v (run evs)) = Some l \<and>
     rightOsc (startBinaural c b v (run evs)) = Some r \<and>
     merger (startBinaural c b v (run evs)) = Some m \<and>
     kindOf (graph (startBinaural c b v (run evs))) l = Some OscillatorNode \<and>
     kindOf (graph (startBinaural c b v (run evs))) r = Some OscillatorNode \<and>
     kindOf (graph (startBinaural c b v (run evs))) m = Some ChannelMergerNode \<and>
     paramOf (graph (startBinaural c b v (run evs))) l = Some c \<and>
     paramOf (graph (startBinaural c b v (run evs))) r = Some (c + b) \<and>
     (l, gl, 0, 0) \<in> connections (graph (startBinaural c b v (run evs))) \<and>
     (gl, m, 0, 0) \<in> connections (graph (startBinaural c b v (run evs))) \<and>
     (r, gr, 0, 0) \<in> connections (graph (startBinaural c b v (run evs))) \<and>
     (gr, m, 0, 1) \<in> connections (graph (startBinaural c b v (run evs))) \<and>
     set (activeOscillators (startBinaural c b v (run evs))) = {l, r}"
proof -
  let ?e = "initContext (run evs)"
  let ?n = "nextNode (graph ?e)"
  note f = fields_startBinaural[OF run_start_init(2,3)[of evs], of c b v]
  note w = wiring_startBinaural[OF run_start_init(2,3)[of evs], of c b v]
    kinds_startBinaural[OF run_start_init(2,3)[of evs], of c b v]
    params_startBinaural[OF run_start_init(2,3)[of evs], of c b v]
  have r: "startBinaural c b v (run evs) = run (evs @ [StartBinaural c b v])"
    by (simp add: run_def)
  have a: "set (activeOscillators (startBinaural c b v (run evs))) = {?n + 2, ?n + 4}"
    unfolding r oscillators_run(1) unfolding r[symmetric]
    using f(4,5) by (auto simp: startBinaural_init)
  show ?thesis
    using f(4,5,6) w a unfolding startBinaural_init by blast
qed


theorem startBinaural_frequencies_witness:
  "\<exists>l r gl gr m.
     leftOsc (startBinaural 150 (5 / 2) (1 / 2) (run [])) = Some l \<and>
     rightOsc (startBinaural 150 (5 / 2) (1 / 2) (run [])) = Some r \<and>
     merger (startBinaural 150 (5 / 2) (1 / 2) (run [])) = Some m \<and>
     paramOf (graph (startBinaural 150 (5 / 2) (1 / 2) (run []))) l = Some 150 \<and>
     paramOf (graph (startBinaural 150 (5 / 2) (1 / 2) (run []))) r = Some (305 / 2) \<and>
     (l, gl, 0, 0) \<in> connections (graph (startBinaural 150 (5 / 2) (1 / 2) (run []))) \<and>
     (gl, m, 0, 0) \<in> connections (graph (startBinaural 150 (5 / 2) (1 / 2) (run []))) \<and>
     (r, gr, 0, 0) \<in> connections (graph (startBinaural 150 (5 / 2) (1 / 2) (run []))) \<and>
     (gr, m, 0, 1) \<in> connections (graph (startBinaural 150 (5 / 2) (1 / 2) (run [])))"
proof -
  have "(150::real) + 5 / 2 = 305 / 2" by simp
  then show ?thesis
    using startBinaural_frequencies[of 150 "5 / 2" "1 / 2" "[]"] by (simp only:) blast
qed

end
